(* ===== verification/Prelude.thy ===== *)
theory Prelude
  imports Complex_Main "HOL-Library.Word"
begin

text \<open>
  Shared vocabulary of the development: the types that name the program's data
  (bytes, JavaScript strings as UTF-16 code units, audio samples), the JavaScript
  exceptions the code can raise as values of \<open>js_error\<close>, the sequencing of
  fallible steps (\<open>bindE\<close>), and the generic lemmas on lists, byte stores and
  bit strings that the component theories share.
\<close>

section \<open>Types of the model\<close>

type_synonym byte = "8 word"

text \<open>A JavaScript string is a sequence of UTF-16 code units.\<close>
type_synonym js_string = "16 word list"

text \<open>
  An audio sample is the value stored in a \<^verbatim>\<open>Float32Array\<close>. Every float32
  value is a rational, and every sample this program stores is exactly
  representable (an int16 divided by \<open>2^15\<close>, or a copy of such a value), so
  samples are modelled as \<open>rat\<close>.
\<close>
type_synonym sample = rat

text \<open>A string literal of the source, read as UTF-16 code units.\<close>
definition js :: "string \<Rightarrow> js_string" where
  "js s = map (\<lambda>c. word_of_nat (of_char c)) s"

text \<open>The exceptions the modelled code can raise (or rethrow).\<close>
datatype js_error =
    RangeError
  | NotSupportedError
  | IndexSizeError
  | InvalidCharacterError
  | Error js_string

section \<open>Sequencing fallible steps\<close>

text \<open>\<open>bindE m f\<close> runs \<open>f\<close> on the value of \<open>m\<close>, or propagates its exception.\<close>
definition bindE :: "'e + 'a \<Rightarrow> ('a \<Rightarrow> 'e + 'b) \<Rightarrow> 'e + 'b" where
  "bindE m f = (case m of Inl e \<Rightarrow> Inl e | Inr x \<Rightarrow> f x)"

named_theorems model_simps \<open>evaluation rules of the model's helpers\<close>

lemma bindE_Inl [simp, model_simps]: "bindE (Inl e) f = Inl e"
  by (simp add: bindE_def)

lemma bindE_Inr [simp, model_simps]: "bindE (Inr x) f = f x"
  by (simp add: bindE_def)

lemma bindE_eq_Inr_conv:
  "bindE m f = Inr y \<longleftrightarrow> (\<exists>x. m = Inr x \<and> f x = Inr y)"
  by (cases m) (auto simp: bindE_def)

lemma bindE_eq_Inl_conv:
  "bindE m f = Inl e \<longleftrightarrow> m = Inl e \<or> (\<exists>x. m = Inr x \<and> f x = Inl e)"
  by (cases m) (auto simp: bindE_def)

section \<open>Writing a run of elements into an array\<close>

text \<open>
  \<open>write_list xs off bs\<close> stores \<open>bs\<close> element by element from index \<open>off\<close>,
  as a loop of indexed assignments does. Both the \<^verbatim>\<open>DataView\<close> setters and
  \<^verbatim>\<open>TypedArray.prototype.set\<close> are this loop after their range check.
\<close>
fun write_list :: "'a list \<Rightarrow> nat \<Rightarrow> 'a list \<Rightarrow> 'a list" where
  "write_list xs off [] = xs"
| "write_list xs off (b # bs) = write_list (xs[off := b]) (Suc off) bs"

lemma length_write_list [simp]: "length (write_list xs off bs) = length xs"
  by (induction bs arbitrary: xs off) auto

lemma write_list_splice:
  "off + length bs \<le> length xs \<Longrightarrow>
   write_list xs off bs = take off xs @ bs @ drop (off + length bs) xs"
proof (induction bs arbitrary: xs off)
  case Nil
  then show ?case by simp
next
  case (Cons b bs)
  then have off: "off < length xs" by simp
  have "write_list (xs[off := b]) (Suc off) bs =
        take (Suc off) (xs[off := b]) @ bs @ drop (Suc off + length bs) (xs[off := b])"
    using Cons.prems by (intro Cons.IH) simp
  also have "take (Suc off) (xs[off := b]) = take off xs @ [b]"
    using off by (simp add: take_Suc_conv_app_nth)
  also have "drop (Suc off + length bs) (xs[off := b]) = drop (Suc off + length bs) xs"
    by simp
  finally show ?case by simp
qed

lemma write_list_append:
  "write_list xs off (bs @ cs) = write_list (write_list xs off bs) (off + length bs) cs"
  by (induction bs arbitrary: xs off) auto

lemma write_list_append_at [simp]:
  "length bs \<le> length ys \<Longrightarrow>
   write_list (xs @ ys) (length xs) bs = xs @ bs @ drop (length bs) ys"
  by (simp add: write_list_splice)

section \<open>Little-endian byte images of words\<close>

definition le16 :: "16 word \<Rightarrow> byte list" where
  "le16 w = [ucast w, ucast (drop_bit 8 w)]"

definition le32 :: "32 word \<Rightarrow> byte list" where
  "le32 w = [ucast w, ucast (drop_bit 8 w), ucast (drop_bit 16 w), ucast (drop_bit 24 w)]"

lemma length_le16 [simp]: "length (le16 w) = 2"
  by (simp add: le16_def)

lemma length_le32 [simp]: "length (le32 w) = 4"
  by (simp add: le32_def)

lemma length_concat_le16 [simp]: "length (concat (map (\<lambda>x. le16 (f x)) xs)) = 2 * length xs"
  by (induction xs) auto

lemma word_of_int_uint_ucast [simp]: "word_of_int (uint c) = ucast c"
  by (rule ucast_eq [symmetric])

text \<open>The code unit of a string read as a byte (\<^verbatim>\<open>ToUint8\<close>).\<close>
definition latin1 :: "js_string \<Rightarrow> byte list" where
  "latin1 s = map ucast s"

lemma length_latin1 [simp]: "length (latin1 s) = length s"
  by (simp add: latin1_def)

lemma length_js [simp]: "length (js s) = length s"
  by (simp add: js_def)

section \<open>Lists and options\<close>

lemma length_concat_map_const:
  "(\<And>x. length (f x) = k) \<Longrightarrow> length (concat (map f xs)) = k * length xs"
  by (induction xs) auto

lemma those_map_Some:
  "\<forall>x \<in> set xs. f x = Some (g x) \<Longrightarrow> those (map f xs) = Some (map g xs)"
  by (induction xs) auto

lemma those_map_None: "those (map f xs) = None \<longleftrightarrow> (\<exists>x \<in> set xs. f x = None)"
  by (induction xs) (auto split: option.splits)

lemma those_map_SomeD: "those (map f xs) = Some ys \<Longrightarrow> x \<in> set xs \<Longrightarrow> f x \<noteq> None"
  using those_map_None [of f xs] by auto

lemma dropWhile_all: "list_all P xs \<Longrightarrow> dropWhile P xs = []"
  by (induction xs) auto

lemma map_nth_fun: "map (\<lambda>i. f (xs ! i)) [0..<length xs] = map f xs"
proof -
  have "map (\<lambda>i. f (xs ! i)) [0..<length xs] = map f (map ((!) xs) [0..<length xs])"
    by (simp only: map_map comp_def)
  then show ?thesis by (simp only: map_nth)
qed

section \<open>Bytes as code units\<close>

lemma byte_unat_less: "unat (b :: byte) < 256"
  by (rule order.strict_trans2 [OF unsigned_less]) simp

lemma byte_unat_le: "unat (b :: byte) \<le> 255"
  using byte_unat_less [of b] by simp

lemma word_of_nat_unat_mod [simp]: "(word_of_nat (unat x mod 256) :: byte) = x"
  using byte_unat_less [of x] by simp

lemma ucast_byte_16_8 [simp]: "(ucast (ucast b :: 16 word) :: byte) = b"
  by (rule ucast_up_ucast_id) (simp add: is_up_def)

lemma unat_ucast_byte_16 [simp]: "unat (ucast b :: 16 word) = unat (b :: byte)"
  using byte_unat_less [of b] by (simp add: unsigned_ucast_eq take_bit_nat_eq_self)

section \<open>Fixed-size pieces of a list\<close>

text \<open>\<open>chunks k xs\<close> cuts \<open>xs\<close> into consecutive pieces of \<open>k\<close> elements, the last
  one possibly shorter: the slices \<open>xs[i:i+k]\<close> for \<open>i = 0, k, 2k, ...\<close>.\<close>
fun chunks :: "nat \<Rightarrow> 'a list \<Rightarrow> 'a list list" where
  "chunks k [] = []"
| "chunks k (x # xs) =
     (if k = 0 then [x # xs] else take k (x # xs) # chunks k (drop k (x # xs)))"

lemma concat_chunks [simp]: "concat (chunks k xs) = xs"
  by (induction k xs rule: chunks.induct) auto

lemma chunks_nonempty: "ys \<in> set (chunks k xs) \<Longrightarrow> ys \<noteq> []"
  by (induction k xs rule: chunks.induct) (auto split: if_splits)

lemma chunks_length_le: "0 < k \<Longrightarrow> ys \<in> set (chunks k xs) \<Longrightarrow> length ys \<le> k"
  by (induction k xs rule: chunks.induct) (auto split: if_splits)

lemma chunks_length_dvd:
  "0 < k \<Longrightarrow> k dvd length xs \<Longrightarrow> ys \<in> set (chunks k xs) \<Longrightarrow> length ys = k"
proof (induction k xs rule: chunks.induct)
  case (1 k)
  then show ?case by simp
next
  case (2 k x xs)
  have "k \<le> length (x # xs)"
    using "2.prems"(1,2) by (auto dest: dvd_imp_le)
  moreover have "k dvd length (drop k (x # xs))"
    using "2.prems"(2) \<open>k \<le> length (x # xs)\<close> by (simp add: dvd_diff_nat)
  ultimately show ?case
    using "2.IH" "2.prems" by auto
qed

lemma nth_chunks:
  "0 < k \<Longrightarrow> i < length (chunks k xs) \<Longrightarrow> chunks k xs ! i = take k (drop (i * k) xs)"
proof (induction k xs arbitrary: i rule: chunks.induct)
  case (1 k)
  then show ?case by simp
next
  case (2 k x xs)
  show ?case
  proof (cases i)
    case 0
    then show ?thesis using "2.prems" by simp
  next
    case (Suc j)
    then have "j < length (chunks k (drop k (x # xs)))"
      using "2.prems" by simp
    then have "chunks k (drop k (x # xs)) ! j = take k (drop (j * k) (drop k (x # xs)))"
      using "2.IH" "2.prems"(1) by simp
    then show ?thesis using Suc "2.prems"(1) by (simp add: add.commute)
  qed
qed

lemma chunks_Cons_eq:
  "0 < k \<Longrightarrow> xs \<noteq> [] \<Longrightarrow> chunks k xs = take k xs # chunks k (drop k xs)"
  by (cases xs) auto

lemma chunks_concat:
  "0 < k \<Longrightarrow> \<forall>ys \<in> set yss. length ys = k \<Longrightarrow> chunks k (concat yss) = yss"
proof (induction yss)
  case Nil
  then show ?case by simp
next
  case (Cons ys yss)
  from Cons.prems have len: "length ys = k" and rest: "\<forall>ys \<in> set yss. length ys = k"
    by auto
  with Cons.prems(1) obtain y ys' where ys: "ys = y # ys'"
    by (cases ys) auto
  have "chunks k (concat (ys # yss)) =
        take k (ys @ concat yss) # chunks k (drop k (ys @ concat yss))"
    using ys Cons.prems(1) by simp
  also have "take k (ys @ concat yss) = ys" using len by simp
  also have "drop k (ys @ concat yss) = concat yss" using len by simp
  finally show ?case using Cons.IH Cons.prems(1) rest by simp
qed

lemma length_chunks: "0 < k \<Longrightarrow> length (chunks k xs) = (length xs + k - 1) div k"
proof (induction k xs rule: chunks.induct)
  case (1 k)
  then show ?case by simp
next
  case (2 k x xs)
  let ?n = "length (x # xs)"
  show ?case
  proof (cases "k \<le> ?n")
    case True
    have "(?n + k - 1) div k = Suc ((?n + k - 1 - k) div k)"
      using True "2.prems" by (intro le_div_geq) auto
    moreover have "?n + k - 1 - k = length (drop k (x # xs)) + k - 1"
      using True by simp
    ultimately show ?thesis using "2.IH" "2.prems" by simp
  next
    case False
    then show ?thesis using "2.prems" by (simp add: div_eq_0_iff)
  qed
qed

section \<open>Bit strings\<close>

text \<open>The \<open>k\<close> low bits of \<open>n\<close>, most significant first, and back.\<close>
fun bits_of :: "nat \<Rightarrow> nat \<Rightarrow> bool list" where
  "bits_of 0 n = []"
| "bits_of (Suc k) n = bits_of k (n div 2) @ [odd n]"

definition nat_of_bits :: "bool list \<Rightarrow> nat" where
  "nat_of_bits bs = foldl (\<lambda>acc b. 2 * acc + of_bool b) 0 bs"

lemma nat_of_bits_Nil [simp]: "nat_of_bits [] = 0"
  by (simp add: nat_of_bits_def)

lemma nat_of_bits_snoc [simp]: "nat_of_bits (bs @ [b]) = 2 * nat_of_bits bs + of_bool b"
  by (simp add: nat_of_bits_def)

lemma length_bits_of [simp]: "length (bits_of k n) = k"
  by (induction k arbitrary: n) auto

lemma nat_of_bits_bits_of [simp]: "nat_of_bits (bits_of k n) = n mod 2 ^ k"
proof (induction k arbitrary: n)
  case 0
  then show ?case by simp
next
  case (Suc k)
  have "n mod 2 ^ Suc k = 2 * (n div 2 mod 2 ^ k) + n mod 2"
    by (simp add: mod_mult2_eq)
  then show ?case using Suc by (simp add: odd_iff_mod_2_eq_one)
qed

lemma bits_of_nat_of_bits [simp]: "bits_of (length bs) (nat_of_bits bs) = bs"
  by (induction bs rule: rev_induct) auto

lemma bits_of_nat_of_bits_len: "length bs = k \<Longrightarrow> bits_of k (nat_of_bits bs) = bs"
  by (metis bits_of_nat_of_bits)

lemma nat_of_bits_bound: "nat_of_bits bs < 2 ^ length bs"
  by (induction bs rule: rev_induct) auto

end
