(* ===== verification/AudioBuffer.thy ===== *)
theory AudioBuffer
  imports Prelude
begin

text \<open>
  The in-memory audio buffer the pipeline passes between its stages: the Web
  Audio \<^verbatim>\<open>AudioBuffer\<close> as the source uses it (\<^verbatim>\<open>ctx.createBuffer\<close>,
  \<^verbatim>\<open>numberOfChannels\<close>, \<^verbatim>\<open>length\<close>, \<^verbatim>\<open>sampleRate\<close>, \<^verbatim>\<open>getChannelData\<close>,
  \<^verbatim>\<open>duration\<close>). These are platform operations, modelled from the Web Audio
  specification: \<open>createBuffer\<close> rejects a channel count outside 1..32, a zero
  length and a rate outside 3000..768000 Hz with \<^verbatim>\<open>NotSupportedError\<close>;
  \<open>getChannelData\<close> rejects a channel index out of range with
  \<^verbatim>\<open>IndexSizeError\<close>. The channel arrays returned by \<open>getChannelData\<close> are
  live views: writing into one is \<open>set_channel\<close>.
\<close>

record audio_buffer =
  numberOfChannels :: nat
  ab_length :: nat
  sampleRate :: nat
  channel_data :: "sample list list"

definition createBuffer :: "nat \<Rightarrow> nat \<Rightarrow> nat \<Rightarrow> js_error + audio_buffer" where
  "createBuffer nch len rate =
     (if nch = 0 \<or> 32 < nch \<or> len = 0 \<or> rate < 3000 \<or> 768000 < rate
      then Inl NotSupportedError
      else Inr \<lparr>numberOfChannels = nch, ab_length = len, sampleRate = rate,
                channel_data = replicate nch (replicate len 0)\<rparr>)"

definition getChannelData :: "audio_buffer \<Rightarrow> nat \<Rightarrow> js_error + sample list" where
  "getChannelData b c =
     (if c < numberOfChannels b then Inr (channel_data b ! c) else Inl IndexSizeError)"

definition set_channel :: "audio_buffer \<Rightarrow> nat \<Rightarrow> sample list \<Rightarrow> audio_buffer" where
  "set_channel b c xs = b\<lparr>channel_data := (channel_data b)[c := xs]\<rparr>"

definition duration :: "audio_buffer \<Rightarrow> rat" where
  "duration b = of_nat (ab_length b) / of_nat (sampleRate b)"

text \<open>
  The buffer invariant of the Web Audio specification: a channel count in
  1..32, a positive length, a supported rate, one array per channel and every
  array of the buffer's length.
\<close>
definition wf_buffer :: "audio_buffer \<Rightarrow> bool" where
  "wf_buffer b \<longleftrightarrow>
     0 < numberOfChannels b \<and> numberOfChannels b \<le> 32 \<and> 0 < ab_length b \<and>
     3000 \<le> sampleRate b \<and> sampleRate b \<le> 768000 \<and>
     length (channel_data b) = numberOfChannels b \<and>
     list_all (\<lambda>ch. length ch = ab_length b) (channel_data b)"

section \<open>Lemmas\<close>

lemma createBuffer_Inr_conv:
  "createBuffer nch len rate = Inr b \<longleftrightarrow>
     0 < nch \<and> nch \<le> 32 \<and> 0 < len \<and> 3000 \<le> rate \<and> rate \<le> 768000 \<and>
     b = \<lparr>numberOfChannels = nch, ab_length = len, sampleRate = rate,
          channel_data = replicate nch (replicate len 0)\<rparr>"
  by (auto simp: createBuffer_def)

lemma createBuffer_Inl_conv:
  "createBuffer nch len rate = Inl e \<longleftrightarrow>
     e = NotSupportedError \<and> (nch = 0 \<or> 32 < nch \<or> len = 0 \<or> rate < 3000 \<or> 768000 < rate)"
  by (auto simp: createBuffer_def)

lemma createBuffer_wf:
  "createBuffer nch len rate = Inr b \<Longrightarrow> wf_buffer b"
  by (auto simp: createBuffer_Inr_conv wf_buffer_def list_all_iff)

lemma getChannelData_wf:
  "wf_buffer b \<Longrightarrow> getChannelData b c = Inr xs \<Longrightarrow> length xs = ab_length b"
  by (auto simp: getChannelData_def wf_buffer_def list_all_length split: if_splits)

lemma set_channel_fields [simp]:
  "numberOfChannels (set_channel b c xs) = numberOfChannels b"
  "ab_length (set_channel b c xs) = ab_length b"
  "sampleRate (set_channel b c xs) = sampleRate b"
  by (simp_all add: set_channel_def)

lemma set_channel_wf:
  "wf_buffer b \<Longrightarrow> length xs = ab_length b \<Longrightarrow> wf_buffer (set_channel b c xs)"
  by (auto simp: wf_buffer_def set_channel_def list_all_iff dest: set_update_subset_insert [THEN subsetD])

lemma getChannelData_set_channel:
  "c < numberOfChannels b \<Longrightarrow> length (channel_data b) = numberOfChannels b \<Longrightarrow>
   getChannelData (set_channel b c xs) c' =
     (if c' = c then Inr xs else getChannelData b c')"
  by (simp add: getChannelData_def set_channel_def nth_list_update)

lemma foldl_set_channel_upt:
  "k \<le> length (channel_data b) \<Longrightarrow>
   foldl (\<lambda>b c. set_channel b c (F c (channel_data b ! c))) b [0..<k] =
     b\<lparr>channel_data := map (\<lambda>c. F c (channel_data b ! c)) [0..<k] @ drop k (channel_data b)\<rparr>"
proof (induction k)
  case 0
  then show ?case by simp
next
  case (Suc k)
  then have d: "drop k (channel_data b) = channel_data b ! k # drop (Suc k) (channel_data b)"
    by (simp add: Cons_nth_drop_Suc)
  show ?case
    using Suc by (simp add: set_channel_def nth_append list_update_append d)
qed

end
