(* ===== verification/Wav.thy ===== *)
theory Wav
  imports AudioBuffer
begin

text \<open>
  The WAV encoder of \<^verbatim>\<open>src/utils/audioUtils.ts\<close>: \<open>audioBufferToWav\<close> and its
  helper \<open>writeString\<close>, over a model of the \<^verbatim>\<open>DataView\<close> setters it calls
  (each one a range check, a \<^verbatim>\<open>ToUint8\<close>/\<^verbatim>\<open>ToUint16\<close>/\<^verbatim>\<open>ToInt16\<close>/\<^verbatim>\<open>ToUint32\<close>
  conversion and a little-endian store). The main result is that the sequence of
  writes produces exactly the canonical 44-byte RIFF header followed by the
  converted samples of channel 0, and that it never raises for a buffer with a
  channel.
\<close>

section \<open>DataView over a zero-initialised ArrayBuffer\<close>

type_synonym data_view = "byte list"

record blob =
  blob_bytes :: "byte list"
  blob_type :: js_string

definition set_bytes :: "data_view \<Rightarrow> nat \<Rightarrow> byte list \<Rightarrow> js_error + data_view" where
  "set_bytes v off bs =
     (if length v < off + length bs then Inl RangeError else Inr (write_list v off bs))"

definition setUint8 :: "data_view \<Rightarrow> nat \<Rightarrow> int \<Rightarrow> js_error + data_view" where
  "setUint8 v off x = set_bytes v off [word_of_int x]"

definition setUint16 :: "data_view \<Rightarrow> nat \<Rightarrow> int \<Rightarrow> js_error + data_view" where
  "setUint16 v off x = set_bytes v off (le16 (word_of_int x))"

definition setUint32 :: "data_view \<Rightarrow> nat \<Rightarrow> int \<Rightarrow> js_error + data_view" where
  "setUint32 v off x = set_bytes v off (le32 (word_of_int x))"

text \<open>\<^verbatim>\<open>ToInt16\<close>: truncation towards zero, then reduction modulo \<open>2^16\<close>.\<close>
definition js_trunc :: "rat \<Rightarrow> int" where
  "js_trunc x = (if x < 0 then ceiling x else floor x)"

definition setInt16 :: "data_view \<Rightarrow> nat \<Rightarrow> rat \<Rightarrow> js_error + data_view" where
  "setInt16 v off x = set_bytes v off (le16 (word_of_int (js_trunc x)))"

section \<open>The encoder\<close>

fun writeString :: "data_view \<Rightarrow> nat \<Rightarrow> js_string \<Rightarrow> js_error + data_view" where
  "writeString v off [] = Inr v"
| "writeString v off (c # cs) =
     bindE (setUint8 v off (uint c)) (\<lambda>v. writeString v (Suc off) cs)"

text \<open>The value passed to \<^verbatim>\<open>setInt16\<close> for one sample (lines 94--95).\<close>
definition wav_sample :: "sample \<Rightarrow> rat" where
  "wav_sample x = (let s = max (-1) (min 1 x) in if s < 0 then s * 32768 else s * 32767)"

text \<open>The sample loop, \<open>offset\<close> starting at 44 and advancing by 2.\<close>
fun write_samples :: "data_view \<Rightarrow> nat \<Rightarrow> sample list \<Rightarrow> js_error + data_view" where
  "write_samples v off [] = Inr v"
| "write_samples v off (s # ss) =
     bindE (setInt16 v off (wav_sample s)) (\<lambda>v. write_samples v (off + 2) ss)"

definition audioBufferToWav :: "audio_buffer \<Rightarrow> js_error + blob" where
  "audioBufferToWav buffer =
     (let numChannels = numberOfChannels buffer;
          rate = sampleRate buffer;
          format = 1;
          bitDepth = 16
      in bindE (getChannelData buffer 0) (\<lambda>samples.
         let bufferLength = length samples * 2;
             view = replicate (44 + bufferLength) 0
         in bindE (writeString view 0 (js ''RIFF'')) (\<lambda>view.
            bindE (setUint32 view 4 (32 + int bufferLength)) (\<lambda>view.
            bindE (writeString view 8 (js ''WAVE'')) (\<lambda>view.
            bindE (writeString view 12 (js ''fmt '')) (\<lambda>view.
            bindE (setUint32 view 16 16) (\<lambda>view.
            bindE (setUint16 view 20 format) (\<lambda>view.
            bindE (setUint16 view 22 (int numChannels)) (\<lambda>view.
            bindE (setUint32 view 24 (int rate)) (\<lambda>view.
            bindE (setUint32 view 28 (int (rate * numChannels * 2))) (\<lambda>view.
            bindE (setUint16 view 32 (int (numChannels * 2))) (\<lambda>view.
            bindE (setUint16 view 34 bitDepth) (\<lambda>view.
            bindE (writeString view 36 (js ''data'')) (\<lambda>view.
            bindE (setUint32 view 40 (int bufferLength)) (\<lambda>view.
            bindE (write_samples view 44 samples) (\<lambda>view.
            Inr \<lparr>blob_bytes = view, blob_type = js ''audio/wav''\<rparr>))))))))))))))))"

section \<open>The canonical layout\<close>

text \<open>The 16-bit PCM value one sample is stored as.\<close>
definition pcm16 :: "sample \<Rightarrow> 16 word" where
  "pcm16 x = word_of_int (js_trunc (wav_sample x))"

text \<open>The 44-byte header of a WAV stream of \<open>n\<close> frames, as the encoder writes it.\<close>
definition wav_header :: "nat \<Rightarrow> nat \<Rightarrow> nat \<Rightarrow> byte list" where
  "wav_header nch rate n =
     latin1 (js ''RIFF'') @ le32 (word_of_nat (32 + n * 2)) @ latin1 (js ''WAVE'') @
     latin1 (js ''fmt '') @ le32 16 @ le16 1 @ le16 (word_of_nat nch) @
     le32 (word_of_nat rate) @ le32 (word_of_nat (rate * nch * 2)) @
     le16 (word_of_nat (nch * 2)) @ le16 16 @ latin1 (js ''data'') @ le32 (word_of_nat (n * 2))"

definition wav_bytes :: "nat \<Rightarrow> nat \<Rightarrow> sample list \<Rightarrow> byte list" where
  "wav_bytes nch rate samples =
     wav_header nch rate (length samples) @ concat (map (\<lambda>s. le16 (pcm16 s)) samples)"

section \<open>Lemmas\<close>

lemma length_wav_header [simp]: "length (wav_header nch rate n) = 44"
  by (simp add: wav_header_def)

lemma set_bytes_ok [model_simps]:
  "off + length bs \<le> length v \<Longrightarrow> set_bytes v off bs = Inr (write_list v off bs)"
  by (simp add: set_bytes_def)

lemma writeString_ok [model_simps]:
  "off + length s \<le> length v \<Longrightarrow> writeString v off s = Inr (write_list v off (latin1 s))"
proof (induction s arbitrary: v off)
  case Nil
  then show ?case by (simp add: latin1_def)
next
  case (Cons c cs)
  have "setUint8 v off (uint c) = Inr (write_list v off [ucast c])"
    using Cons.prems by (simp add: setUint8_def set_bytes_ok)
  moreover have "writeString (write_list v off [ucast c]) (Suc off) cs =
                 Inr (write_list (write_list v off [ucast c]) (Suc off) (latin1 cs))"
    using Cons.prems by (intro Cons.IH) simp
  ultimately show ?case
    by (simp add: latin1_def)
qed

lemma write_samples_ok [model_simps]:
  "off + 2 * length ss \<le> length v \<Longrightarrow>
   write_samples v off ss = Inr (write_list v off (concat (map (\<lambda>s. le16 (pcm16 s)) ss)))"
proof (induction ss arbitrary: v off)
  case Nil
  then show ?case by simp
next
  case (Cons s ss)
  have "setInt16 v off (wav_sample s) = Inr (write_list v off (le16 (pcm16 s)))"
    using Cons.prems by (simp add: setInt16_def set_bytes_ok pcm16_def)
  moreover have "write_samples (write_list v off (le16 (pcm16 s))) (off + 2) ss =
      Inr (write_list (write_list v off (le16 (pcm16 s))) (off + 2)
             (concat (map (\<lambda>s. le16 (pcm16 s)) ss)))"
    using Cons.prems by (intro Cons.IH) simp
  ultimately show ?case
    by (simp add: write_list_append)
qed

lemma audioBufferToWav_eq:
  "0 < numberOfChannels b \<Longrightarrow>
   audioBufferToWav b =
     Inr \<lparr>blob_bytes = wav_bytes (numberOfChannels b) (sampleRate b) (channel_data b ! 0),
          blob_type = js ''audio/wav''\<rparr>"
  by (simp add: audioBufferToWav_def getChannelData_def Let_def setUint16_def setUint32_def
      model_simps write_list_splice wav_bytes_def wav_header_def)

lemma length_wav_bytes [simp]: "length (wav_bytes nch rate ss) = 44 + 2 * length ss"
  by (simp add: wav_bytes_def)

subsection \<open>Sample conversion\<close>

lemma wav_sample_bounds: "-32768 \<le> wav_sample x \<and> wav_sample x \<le> 32767"
  by (auto simp: wav_sample_def Let_def mult_le_cancel_right1)

lemma js_trunc_int [simp]: "js_trunc (of_int k) = k"
  by (simp add: js_trunc_def)

lemma js_trunc_bounds:
  assumes "of_int lo \<le> x" "x \<le> of_int hi"
  shows "lo \<le> js_trunc x \<and> js_trunc x \<le> hi"
proof -
  have "lo \<le> ceiling x" using ceiling_mono [OF assms(1)] by simp
  moreover have "floor x \<le> hi" using floor_mono [OF assms(2)] by simp
  moreover have "lo \<le> floor x" "ceiling x \<le> hi"
    using assms by (simp_all add: le_floor_iff ceiling_le_iff)
  ultimately show ?thesis by (simp add: js_trunc_def)
qed

lemma pcm16_value_bounds:
  "-32768 \<le> js_trunc (wav_sample x) \<and> js_trunc (wav_sample x) \<le> 32767"
  using wav_sample_bounds [of x] by (intro js_trunc_bounds) simp_all

lemma sint_pcm16: "sint (pcm16 x) = js_trunc (wav_sample x)"
  using pcm16_value_bounds [of x]
  by (simp add: pcm16_def sint_sbintrunc' signed_take_bit_int_eq_self)

section \<open>Properties of the encoder\<close>

text \<open>
  C1. The encoder's fourteen header writes and its sample loop produce exactly the
  canonical layout: the 44-byte header (with the buffer's channel count and rate,
  and sizes from the length of channel 0) followed by each sample of channel 0 as a
  little-endian int16, in a blob of type \<^verbatim>\<open>audio/wav\<close>; the only exception is
  \<^verbatim>\<open>IndexSizeError\<close>, for a buffer without channels.
\<close>
theorem audioBufferToWav_layout:
  "audioBufferToWav b =
     (if numberOfChannels b = 0 then Inl IndexSizeError
      else Inr \<lparr>blob_bytes = wav_bytes (numberOfChannels b) (sampleRate b) (channel_data b ! 0),
                blob_type = js ''audio/wav''\<rparr>)"
  by (simp add: audioBufferToWav_eq) (simp add: audioBufferToWav_def getChannelData_def)

text \<open>
  C2. For a buffer with a channel, the stream is \<open>44 + 2F\<close> bytes long for \<open>F\<close>
  frames; bytes 0--3 are \<^verbatim>\<open>RIFF\<close>, bytes 8--11 \<^verbatim>\<open>WAVE\<close>, bytes 40--43 the data
  size \<open>2F\<close>, and bytes 4--7 hold \<open>32 + 2F\<close> (four less than the RIFF chunk size
  \<open>36 + 2F\<close>).
\<close>
theorem wav_header_fields:
  assumes "0 < numberOfChannels b"
    and "audioBufferToWav b = Inr w"
    and "F = length (channel_data b ! 0)"
  shows "length (blob_bytes w) = 44 + 2 * F \<and>
         take 4 (blob_bytes w) = latin1 (js ''RIFF'') \<and>
         take 4 (drop 4 (blob_bytes w)) = le32 (word_of_nat (32 + F * 2)) \<and>
         take 4 (drop 8 (blob_bytes w)) = latin1 (js ''WAVE'') \<and>
         take 4 (drop 40 (blob_bytes w)) = le32 (word_of_nat (F * 2))"
proof -
  from assms(1,2) have "blob_bytes w = wav_bytes (numberOfChannels b) (sampleRate b) (channel_data b ! 0)"
    by (auto simp: audioBufferToWav_eq)
  then show ?thesis
    using assms(3) by (simp add: wav_bytes_def wav_header_def)
qed

theorem wav_header_fields_witness:
  "0 < numberOfChannels \<lparr>numberOfChannels = 1, ab_length = 2, sampleRate = 24000,
                            channel_data = [[0, 1 / 2]]\<rparr> \<and>
   audioBufferToWav \<lparr>numberOfChannels = 1, ab_length = 2, sampleRate = 24000,
                      channel_data = [[0, 1 / 2]]\<rparr> =
     Inr \<lparr>blob_bytes = wav_bytes 1 24000 [0, 1 / 2], blob_type = js ''audio/wav''\<rparr> \<and>
   length (wav_bytes 1 24000 [0, 1 / 2]) = 48 \<and>
   take 4 (wav_bytes 1 24000 [0, 1 / 2]) = [82, 73, 70, 70] \<and>
   take 4 (drop 40 (wav_bytes 1 24000 [0, 1 / 2])) = [4, 0, 0, 0]"
proof -
  let ?b = "\<lparr>numberOfChannels = 1, ab_length = 2, sampleRate = 24000,
             channel_data = [[0 :: sample, 1 / 2]]\<rparr>"
  let ?w = "\<lparr>blob_bytes = wav_bytes 1 24000 [0, 1 / 2], blob_type = js ''audio/wav''\<rparr>"
  have h: "0 < numberOfChannels ?b" "audioBufferToWav ?b = Inr ?w" "2 = length (channel_data ?b ! 0)"
    by (simp_all add: audioBufferToWav_eq)
  from wav_header_fields [OF h] h show ?thesis
    by (simp add: js_def latin1_def le32_def)
qed

text \<open>
  C3. Clamping: a sample at or above 1.0 is stored as 32767, the int16 maximum; a
  sample at or below -1.0 as -32768, the int16 minimum.
\<close>
theorem pcm16_clamp:
  "(1 \<le> x \<longrightarrow> sint (pcm16 x) = 32767) \<and> (x \<le> -1 \<longrightarrow> sint (pcm16 x) = -32768)"
  by (simp add: sint_pcm16 wav_sample_def js_trunc_def)

theorem pcm16_clamp_witness:
  "sint (pcm16 (3 / 2)) = 32767 \<and> sint (pcm16 (- 3 / 2)) = -32768"
  using pcm16_clamp [of "3 / 2"] pcm16_clamp [of "- 3 / 2"] by simp

text \<open>
  C4. The value handed to \<^verbatim>\<open>setInt16\<close> for any sample lies in the int16 range, so
  its \<^verbatim>\<open>ToInt16\<close> reduction never wraps: the stored int16 is the truncated scaled
  sample itself.
\<close>
theorem pcm16_no_wrap:
  "-32768 \<le> js_trunc (wav_sample x) \<and> js_trunc (wav_sample x) \<le> 32767 \<and>
   sint (pcm16 x) = js_trunc (wav_sample x)"
  using pcm16_value_bounds [of x] sint_pcm16 [of x] by simp

end
