(* ===== verification/Base64.thy ===== *)
theory Base64
  imports Prelude
begin

text \<open>
  The base64 codec of \<^verbatim>\<open>src/utils/audioUtils.ts\<close>:
  \<open>decodeBase64ToUint8Array\<close> (\<^verbatim>\<open>atob\<close>, then each code unit into a
  \<^verbatim>\<open>Uint8Array\<close>) and \<open>encodeUint8ArrayToBase64\<close> (each byte as a code unit,
  then \<^verbatim>\<open>btoa\<close>). The browser's \<^verbatim>\<open>atob\<close> and \<^verbatim>\<open>btoa\<close> are modelled from the
  HTML standard's forgiving-base64 algorithms (RFC 4648 alphabet), at the level of
  bit strings: encoding appends zero bits up to a multiple of 6 and pads the text
  with \<open>=\<close> to a multiple of 4; decoding removes ASCII whitespace and up to two
  final \<open>=\<close>, rejects a length of \<open>1 mod 4\<close> and any character outside the
  alphabet with \<^verbatim>\<open>InvalidCharacterError\<close>, and drops the 0, 4 or 2 trailing bits
  that do not make a whole byte.
\<close>

section \<open>The RFC 4648 alphabet\<close>

text \<open>Table 1 of RFC 4648: the code point of the digit for each 6-bit value, and
  the value of each digit.\<close>
definition b64_code :: "nat \<Rightarrow> nat" where
  "b64_code v =
     (if v < 26 then 65 + v
      else if v < 52 then 71 + v
      else if v < 62 then v - 4
      else if v = 62 then 43 else 47)"

definition b64_value :: "nat \<Rightarrow> nat option" where
  "b64_value n =
     (if 65 \<le> n \<and> n \<le> 90 then Some (n - 65)
      else if 97 \<le> n \<and> n \<le> 122 then Some (n - 71)
      else if 48 \<le> n \<and> n \<le> 57 then Some (n + 4)
      else if n = 43 then Some 62
      else if n = 47 then Some 63
      else None)"

definition b64_char :: "nat \<Rightarrow> 16 word" where
  "b64_char v = word_of_nat (b64_code v)"

definition b64_index :: "16 word \<Rightarrow> nat option" where
  "b64_index c = b64_value (unat c)"

definition ascii_whitespace :: "16 word \<Rightarrow> bool" where
  "ascii_whitespace c \<longleftrightarrow> c \<in> {9, 10, 12, 13, 32}"

section \<open>btoa and atob\<close>

definition pad_to :: "nat \<Rightarrow> 'a \<Rightarrow> 'a list \<Rightarrow> 'a list" where
  "pad_to k x xs = xs @ replicate ((k - length xs mod k) mod k) x"

definition b64_encode :: "byte list \<Rightarrow> js_string" where
  "b64_encode bs =
     (let bits = concat (map (\<lambda>b. bits_of 8 (unat b)) bs);
          sextets = chunks 6 (pad_to 6 False bits)
      in pad_to 4 61 (map (\<lambda>g. b64_char (nat_of_bits g)) sextets))"

definition btoa :: "js_string \<Rightarrow> js_error + js_string" where
  "btoa s =
     (if list_ex (\<lambda>c. 255 < unat c) s then Inl InvalidCharacterError
      else Inr (b64_encode (map ucast s)))"

definition strip_padding :: "js_string \<Rightarrow> js_string" where
  "strip_padding d =
     (if length d mod 4 = 0 then
        (case rev d of
           c1 # c2 # r \<Rightarrow> if c1 = 61 \<and> c2 = 61 then rev r else if c1 = 61 then rev (c2 # r) else d
         | [c1] \<Rightarrow> if c1 = 61 then [] else d
         | [] \<Rightarrow> d)
      else d)"

definition bytes_of_bits :: "bool list \<Rightarrow> byte list" where
  "bytes_of_bits bits =
     map (\<lambda>g. word_of_nat (nat_of_bits g)) (chunks 8 (take (length bits div 8 * 8) bits))"

definition atob :: "js_string \<Rightarrow> js_error + js_string" where
  "atob s =
     (let d = strip_padding (filter (\<lambda>c. \<not> ascii_whitespace c) s)
      in if length d mod 4 = 1 then Inl InvalidCharacterError
         else case those (map b64_index d) of
                None \<Rightarrow> Inl InvalidCharacterError
              | Some vs \<Rightarrow>
                  Inr (map ucast (bytes_of_bits (concat (map (bits_of 6) vs)))))"

section \<open>The two functions of the source\<close>

definition decodeBase64ToUint8Array :: "js_string \<Rightarrow> js_error + byte list" where
  "decodeBase64ToUint8Array base64 =
     bindE (atob base64) (\<lambda>binaryString.
       Inr (map (\<lambda>c. word_of_int (uint c)) binaryString))"

definition encodeUint8ArrayToBase64 :: "byte list \<Rightarrow> js_error + js_string" where
  "encodeUint8ArrayToBase64 bytes = btoa (map (\<lambda>b. word_of_int (uint b)) bytes)"

section \<open>Lemmas\<close>

section \<open>Lemmas\<close>

lemma b64_value_code: "v < 64 \<Longrightarrow> b64_value (b64_code v) = Some v"
  unfolding b64_code_def b64_value_def by auto
lemma b64_code_bound: "b64_code v < 128"
  unfolding b64_code_def by auto
lemma unat_b64_char: "unat (b64_char v) = b64_code v"
  using b64_code_bound [of v] by (simp add: b64_char_def unat_of_nat)
lemma b64_index_char: "v < 64 \<Longrightarrow> b64_index (b64_char v) = Some v"
  by (simp add: b64_index_def unat_b64_char b64_value_code)
lemma b64_char_not_pad: "v < 64 \<Longrightarrow> b64_char v \<noteq> 61"
  using b64_index_char [of v] by (auto simp: b64_index_def b64_value_def)

lemma b64_char_not_space: "v < 64 \<Longrightarrow> \<not> ascii_whitespace (b64_char v)"
  using b64_index_char [of v] by (auto simp: b64_index_def b64_value_def ascii_whitespace_def)

lemma strip_padding_pad:
  assumes "61 \<notin> set C" "p \<le> 2" "(length C + p) mod 4 = 0"
  shows "strip_padding (C @ replicate p 61) = C"
proof -
  have "p = 0 \<or> p = 1 \<or> p = 2" using assms(2) by arith
  moreover have "strip_padding C = C"
    using assms(1) by (auto simp: strip_padding_def split: list.splits dest: arg_cong [of _ _ set])
  ultimately show ?thesis
    using assms by (auto simp: strip_padding_def numeral_2_eq_2 split: list.splits
                        dest: arg_cong [of _ _ set])
qed

lemma pad6_length_cases:
  fixes n :: nat
  obtains q where "n = 3 * q" "8 * n + (6 - 8 * n mod 6) mod 6 = 24 * q"
  | q where "n = 3 * q + 1" "8 * n + (6 - 8 * n mod 6) mod 6 = 24 * q + 12"
  | q where "n = 3 * q + 2" "8 * n + (6 - 8 * n mod 6) mod 6 = 24 * q + 18"
proof -
  have m1: "(8 + 24 * q) mod 6 = (2::nat)" for q by presburger
  have m2: "(16 + 24 * q) mod 6 = (4::nat)" for q by presburger
  have "n mod 3 = 0 \<or> n mod 3 = 1 \<or> n mod 3 = 2" by arith
  moreover have "n = 3 * (n div 3) + n mod 3" by simp
  ultimately show ?thesis using that
    by (elim disjE) (simp_all add: m1 m2)
qed

lemma b64_length_arith:
  fixes q :: nat
  shows "24 * q div 6 = 4 * q" "(24 * q + 12) div 6 = 4 * q + 2" "(24 * q + 18) div 6 = 4 * q + 3"
    and "4 * q mod 4 = 0" "(4 * q + 2) mod 4 = 2" "(4 * q + 3) mod 4 = 3"
    and "24 * q div 8 * 8 = 24 * q" "(24 * q + 12) div 8 * 8 = 24 * q + 8"
    and "(24 * q + 18) div 8 * 8 = 24 * q + 16"
    and "Suc (Suc (4 * q)) mod 4 = 2" "Suc (Suc (Suc (4 * q))) mod 4 = 3"
  by presburger+

lemma atob_b64_encode: "atob (b64_encode bs) = Inr (map ucast bs)"
proof -
  define B where "B = concat (map (\<lambda>b. bits_of 8 (unat b)) bs)"
  define P where "P = pad_to 6 False B"
  define S where "S = chunks 6 P"
  define C where "C = map (\<lambda>g. b64_char (nat_of_bits g)) S"
  define p where "p = (4 - length C mod 4) mod 4"
  have E: "b64_encode bs = C @ replicate p 61"
    by (simp add: b64_encode_def pad_to_def Let_def B_def P_def S_def C_def p_def)
  have lenB: "length B = 8 * length bs"
    by (simp add: B_def length_concat_map_const)
  have lenP: "length P = 8 * length bs + (6 - 8 * length bs mod 6) mod 6"
    by (simp add: P_def pad_to_def lenB)
  obtain q where q: "(length bs = 3 * q \<and> length P = 24 * q) \<or>
                    (length bs = 3 * q + 1 \<and> length P = 24 * q + 12) \<or>
                    (length bs = 3 * q + 2 \<and> length P = 24 * q + 18)"
    using lenP by (cases rule: pad6_length_cases [of "length bs"]) auto
  then have dvdP: "6 dvd length P" by auto
  have lenC: "length C = length P div 6"
    using dvdP by (auto simp: C_def S_def length_chunks elim!: dvdE)
  have Cq: "(length C = 4 * q \<and> p = 0) \<or> (length C = 4 * q + 2 \<and> p = 2) \<or>
            (length C = 4 * q + 3 \<and> p = 1)"
    using q lenC by (auto simp: p_def b64_length_arith)
  have S6: "\<forall>g \<in> set S. length g = 6"
    using dvdP by (auto simp: S_def intro: chunks_length_dvd)
  have S64: "nat_of_bits g < 64" if "g \<in> set S" for g
    using nat_of_bits_bound [of g] S6 that by simp
  have C_digits: "\<forall>c \<in> set C. \<exists>v < 64. c = b64_char v"
    using S64 by (auto simp: C_def)
  have ws: "filter (\<lambda>c. \<not> ascii_whitespace c) (C @ replicate p 61) = C @ replicate p 61"
  proof -
    have "\<forall>c \<in> set C. \<not> ascii_whitespace c"
      using C_digits b64_char_not_space by fastforce
    moreover have "\<not> ascii_whitespace 61" by (simp add: ascii_whitespace_def)
    ultimately show ?thesis by (auto simp: filter_id_conv)
  qed
  have strip: "strip_padding (C @ replicate p 61) = C"
  proof (rule strip_padding_pad)
    show "61 \<notin> set C" using C_digits b64_char_not_pad by auto
    show "p \<le> 2" "(length C + p) mod 4 = 0"
      using Cq by (auto simp: b64_length_arith)
  qed
  have not1: "length C mod 4 \<noteq> 1"
    using Cq by (auto simp: b64_length_arith)
  have those: "those (map b64_index C) = Some (map nat_of_bits S)"
    using S64 by (auto simp: C_def b64_index_char intro!: those_map_Some)
  have bits: "concat (map (bits_of 6) (map nat_of_bits S)) = P"
  proof -
    have "map (bits_of 6) (map nat_of_bits S) = S"
      using S6 by (induction S) (auto simp: bits_of_nat_of_bits_len)
    then show ?thesis by (simp add: S_def)
  qed
  have cut: "length P div 8 * 8 = length B"
    using q lenB by (auto simp: b64_length_arith)
  have takeP: "take (length B) P = B"
    by (simp add: P_def pad_to_def)
  have chunksB: "chunks 8 B = map (\<lambda>b. bits_of 8 (unat b)) bs"
    by (simp add: B_def chunks_concat)
  have bytes: "bytes_of_bits P = bs"
    by (simp add: bytes_of_bits_def cut takeP chunksB comp_def)
  show ?thesis
    unfolding atob_def E ws Let_def strip using not1 by (simp add: those bits [simplified] bytes)
qed

lemma encodeUint8ArrayToBase64_eq:
  "encodeUint8ArrayToBase64 bs = Inr (b64_encode bs)"
proof -
  have "\<not> list_ex (\<lambda>c. 255 < unat c) (map (\<lambda>b. ucast b :: 16 word) bs)"
  proof -
    have "\<forall>c \<in> set bs. \<not> 255 < unat c" using byte_unat_le by (simp add: not_less)
    then show ?thesis by (simp add: list_ex_iff)
  qed
  then show ?thesis
    by (simp add: encodeUint8ArrayToBase64_def btoa_def comp_def)
qed

section \<open>Properties of the codec\<close>

text \<open>
  C5. Round trip: base64-encoding a byte array with \<open>encodeUint8ArrayToBase64\<close>
  and decoding the text with \<open>decodeBase64ToUint8Array\<close> gives back the same
  bytes, and neither step raises.
\<close>
theorem base64_roundtrip:
  "bindE (encodeUint8ArrayToBase64 bs) decodeBase64ToUint8Array = Inr bs"
  by (simp add: encodeUint8ArrayToBase64_eq decodeBase64ToUint8Array_def atob_b64_encode comp_def)

end
