(* ===== verification/Pcm.thy ===== *)
theory Pcm
  imports AudioBuffer
begin

text \<open>
  The PCM decoder of \<^verbatim>\<open>src/utils/audioUtils.ts\<close>, \<open>decodePCMToAudioBuffer\<close>:
  the bytes are viewed as an \<^verbatim>\<open>Int16Array\<close> (little-endian; a byte length that is
  not even raises \<^verbatim>\<open>RangeError\<close>), a buffer of \<open>length / numChannels\<close> frames is
  created (the frame count converted to \<^verbatim>\<open>unsigned long\<close> by truncation), and
  the two nested loops de-interleave the samples, dividing each by 32768. The inner
  loop runs while \<open>i < length / numChannels\<close> over the reals; an iteration past the
  buffer's last frame writes outside the \<^verbatim>\<open>Float32Array\<close>, which the platform
  ignores, as \<open>list_update\<close> does.
\<close>

definition int16_of_le :: "byte \<Rightarrow> byte \<Rightarrow> 16 word" where
  "int16_of_le lo hi = word_of_nat (unat lo + 256 * unat hi)"

definition le_int16s :: "byte list \<Rightarrow> 16 word list" where
  "le_int16s bs = map (\<lambda>g. int16_of_le (g ! 0) (g ! 1)) (chunks 2 bs)"

text \<open>\<^verbatim>\<open>new Int16Array(data.buffer)\<close>.\<close>
definition int16_view :: "byte list \<Rightarrow> js_error + 16 word list" where
  "int16_view bs = (if odd (length bs) then Inl RangeError else Inr (le_int16s bs))"

definition pcm_value :: "16 word \<Rightarrow> sample" where
  "pcm_value v = of_int (sint v) / 32768"

text \<open>The inner loop, for one channel: \<open>i\<close> runs while \<open>i * numChannels < length\<close>.\<close>
definition fill_channel :: "16 word list \<Rightarrow> nat \<Rightarrow> nat \<Rightarrow> sample list \<Rightarrow> sample list" where
  "fill_channel dataInt16 numChannels channel channelData =
     foldl (\<lambda>arr i. arr[i := pcm_value (dataInt16 ! (i * numChannels + channel))])
       channelData [0..<(length dataInt16 + numChannels - 1) div numChannels]"

text \<open>The outer loop over the channels.\<close>
fun decode_channels ::
  "audio_buffer \<Rightarrow> 16 word list \<Rightarrow> nat \<Rightarrow> nat list \<Rightarrow> js_error + audio_buffer" where
  "decode_channels buffer dataInt16 numChannels [] = Inr buffer"
| "decode_channels buffer dataInt16 numChannels (channel # cs) =
     bindE (getChannelData buffer channel) (\<lambda>channelData.
       decode_channels
         (set_channel buffer channel (fill_channel dataInt16 numChannels channel channelData))
         dataInt16 numChannels cs)"

definition decodePCMToAudioBuffer :: "byte list \<Rightarrow> nat \<Rightarrow> nat \<Rightarrow> js_error + audio_buffer" where
  "decodePCMToAudioBuffer data rate numChannels =
     bindE (int16_view data) (\<lambda>dataInt16.
       let frameCount =
             (if numChannels = 0 then 0 else (length dataInt16 div numChannels) mod 2 ^ 32)
       in bindE (createBuffer numChannels frameCount rate) (\<lambda>buffer.
            decode_channels buffer dataInt16 numChannels [0..<numChannels]))"

section \<open>Lemmas\<close>

lemma foldl_update_upt:
  "foldl (\<lambda>arr i. arr[i := f i]) xs [0..<k] = map f [0..<min k (length xs)] @ drop k xs"
proof (induction k)
  case 0
  then show ?case by simp
next
  case (Suc k)
  show ?case
  proof (cases "k < length xs")
    case True
    then have "drop k xs = xs ! k # drop (Suc k) xs" by (simp add: Cons_nth_drop_Suc)
    with Suc True show ?thesis by (simp add: list_update_append min_def)
  next
    case False
    with Suc show ?thesis by (simp add: min_def list_update_beyond)
  qed
qed

lemma fill_channel_frames:
  assumes "0 < nch" "length arr = length ys div nch"
  shows "fill_channel ys nch c arr =
           map (\<lambda>i. pcm_value (ys ! (i * nch + c))) [0..<length ys div nch]"
proof -
  have "length ys div nch \<le> (length ys + nch - 1) div nch"
    using assms(1) by (intro div_le_mono) simp
  then show ?thesis
    using assms(2) by (simp add: fill_channel_def foldl_update_upt min_def)
qed

lemma decode_channels_eq:
  "\<forall>c \<in> set cs. c < numberOfChannels b \<Longrightarrow> length (channel_data b) = numberOfChannels b \<Longrightarrow>
   decode_channels b ys nch cs =
     Inr (foldl (\<lambda>b c. set_channel b c (fill_channel ys nch c (channel_data b ! c))) b cs)"
proof (induction cs arbitrary: b)
  case Nil
  then show ?case by simp
next
  case (Cons c cs)
  then show ?case
    by (simp add: getChannelData_def set_channel_def)
qed

lemma length_le_int16s [simp]: "length (le_int16s bs) = (length bs + 1) div 2"
  by (simp add: le_int16s_def length_chunks)

lemma decodePCM_eq:
  assumes "even (length data)" "0 < nch" "nch \<le> 32" "nch \<le> length data div 2"
    and "3000 \<le> rate" "rate \<le> 768000" "length data div 2 div nch < 2 ^ 32"
  shows "decodePCMToAudioBuffer data rate nch =
           Inr \<lparr>numberOfChannels = nch, ab_length = length data div 2 div nch, sampleRate = rate,
                channel_data = map (\<lambda>c. map (\<lambda>i. pcm_value (le_int16s data ! (i * nch + c)))
                                             [0..<length data div 2 div nch]) [0..<nch]\<rparr>"
proof -
  let ?ys = "le_int16s data"
  let ?f = "length data div 2 div nch"
  let ?b = "\<lparr>numberOfChannels = nch, ab_length = ?f, sampleRate = rate,
             channel_data = replicate nch (replicate ?f (0 :: sample))\<rparr>"
  have view: "int16_view data = Inr ?ys"
    using assms(1) by (simp add: int16_view_def)
  have len: "length ?ys = length data div 2"
    using assms(1) by simp
  have f0: "0 < ?f"
    using assms(2,4) by (simp add: div_greater_zero_iff)
  have fc: "(length ?ys div nch) mod 4294967296 = ?f"
    using len assms(7) by simp
  have cb: "createBuffer nch ?f rate = Inr ?b"
    using assms(2,3,5,6) f0 by (simp add: createBuffer_def)
  have dc: "decode_channels ?b ?ys nch [0..<nch] =
     Inr (foldl (\<lambda>b c. set_channel b c (fill_channel ?ys nch c (channel_data b ! c))) ?b [0..<nch])"
    by (rule decode_channels_eq) simp_all
  have fill: "fill_channel ?ys nch c (replicate ?f 0) =
              map (\<lambda>i. pcm_value (?ys ! (i * nch + c))) [0..<?f]" for c
    using len fill_channel_frames [OF assms(2), of "replicate ?f 0" ?ys c] by simp
  have "decodePCMToAudioBuffer data rate nch =
        bindE (createBuffer nch ?f rate) (\<lambda>buffer. decode_channels buffer ?ys nch [0..<nch])"
    using assms(2) by (simp add: decodePCMToAudioBuffer_def view fc del: length_le_int16s)
  then show ?thesis
    by (simp add: cb dc foldl_set_channel_upt fill del: length_le_int16s)
qed

lemma nth_le_int16s:
  "k < length data div 2 \<Longrightarrow>
   le_int16s data ! k = int16_of_le (data ! (2 * k)) (data ! (2 * k + 1))"
proof -
  assume k: "k < length data div 2"
  then have "k < length (chunks 2 data)" by (simp add: length_chunks)
  then have "chunks 2 data ! k = take 2 (drop (k * 2) data)" by (simp add: nth_chunks)
  moreover have "2 * k + 1 < length data" using k by simp
  ultimately show ?thesis
    using \<open>k < length (chunks 2 data)\<close> by (simp add: le_int16s_def mult.commute)
qed

lemma length_fill_channel [simp]: "length (fill_channel ys nch c arr) = length arr"
  by (simp add: fill_channel_def foldl_update_upt)

lemma decodePCM_wf:
  assumes "decodePCMToAudioBuffer data rate nch = Inr b"
  shows "wf_buffer b \<and> numberOfChannels b = nch \<and> sampleRate b = rate"
proof -
  obtain ys len b0 where ys: "int16_view data = Inr ys"
    and cb: "createBuffer nch len rate = Inr b0"
    and dc: "decode_channels b0 ys nch [0..<nch] = Inr b"
    using assms by (auto simp: decodePCMToAudioBuffer_def Let_def bindE_eq_Inr_conv)
  have wf0: "wf_buffer b0" by (rule createBuffer_wf [OF cb])
  have b0: "numberOfChannels b0 = nch" "sampleRate b0 = rate" "length (channel_data b0) = nch"
    using cb by (auto simp: createBuffer_Inr_conv)
  let ?F = "\<lambda>c. fill_channel ys nch c"
  have "b = b0\<lparr>channel_data := map (\<lambda>c. ?F c (channel_data b0 ! c)) [0..<nch]\<rparr>"
    using dc b0 by (simp add: decode_channels_eq foldl_set_channel_upt)
  moreover have "list_all (\<lambda>ch. length ch = ab_length b0) (map (\<lambda>c. ?F c (channel_data b0 ! c)) [0..<nch])"
    using wf0 b0 by (auto simp: wf_buffer_def list_all_length)
  ultimately show ?thesis
    using wf0 b0 by (simp add: wf_buffer_def)
qed

section \<open>Properties of the decoder\<close>

text \<open>
  C6. For an even number of bytes holding at least one frame, a supported rate and
  1..32 channels, the decoder returns a well-formed buffer of
  \<open>\<lfloor>bytes / 2 / numChannels\<rfloor>\<close> frames whose sample \<open>i\<close> of channel \<open>c\<close> is the
  little-endian int16 at PCM index \<open>i * numChannels + c\<close> divided by 32768.
  Samples past the last whole frame are dropped without an error.
\<close>
theorem decodePCM_deinterleave:
  assumes "even (length data)" "0 < nch" "nch \<le> 32" "nch \<le> length data div 2"
    and "3000 \<le> rate" "rate \<le> 768000" "length data div 2 div nch < 2 ^ 32"
  shows "\<exists>b. decodePCMToAudioBuffer data rate nch = Inr b \<and> wf_buffer b \<and>
             numberOfChannels b = nch \<and> sampleRate b = rate \<and>
             ab_length b = length data div 2 div nch \<and>
             (\<forall>c < nch. \<forall>i < ab_length b.
                channel_data b ! c ! i =
                  of_int (sint (int16_of_le (data ! (2 * (i * nch + c))) (data ! (2 * (i * nch + c) + 1))))
                  / 32768)"
proof -
  have f0: "0 < length data div 2 div nch"
    using assms(2,4) by (simp add: div_greater_zero_iff)
  have idx: "i * nch + c < length data div 2" if "c < nch" "i < length data div 2 div nch" for c i
  proof -
    have "i * nch + c < (i + 1) * nch" using that(1) by simp
    also have "\<dots> \<le> length data div 2 div nch * nch"
      using that(2) by (intro mult_le_mono1) simp
    also have "\<dots> \<le> length data div 2" by simp
    finally show ?thesis .
  qed
  show ?thesis
    using assms f0 idx
    by (auto simp: decodePCM_eq wf_buffer_def list_all_iff pcm_value_def nth_le_int16s)
qed

theorem decodePCM_deinterleave_witness:
  "(\<exists>b. decodePCMToAudioBuffer [0, 0, 0, 64] 24000 1 = Inr b \<and> ab_length b = 2 \<and>
        channel_data b ! 0 ! 0 = 0 \<and> channel_data b ! 0 ! 1 = 1 / 2) \<and>
   (\<exists>b. decodePCMToAudioBuffer [1, 0, 2, 0, 3, 0] 24000 2 = Inr b \<and> ab_length b = 1 \<and>
        channel_data b ! 0 ! 0 = 1 / 32768 \<and> channel_data b ! 1 ! 0 = 2 / 32768)"
proof
  obtain b where b: "decodePCMToAudioBuffer [0, 0, 0, 64] 24000 1 = Inr b"
    and len: "ab_length b = 2"
    and v: "\<forall>c < 1. \<forall>i < ab_length b. channel_data b ! c ! i =
              of_int (sint (int16_of_le ([0, 0, 0, 64] ! (2 * (i * 1 + c)))
                                         ([0, 0, 0, 64] ! (2 * (i * 1 + c) + 1)))) / 32768"
    using decodePCM_deinterleave [of "[0, 0, 0, 64]" 1 24000] by auto
  have "channel_data b ! 0 ! 0 = 0"
    using v [rule_format, of 0 0] len by (simp add: int16_of_le_def)
  moreover have "channel_data b ! 0 ! 1 = 1 / 2"
    using v [rule_format, of 0 1] len by (simp add: int16_of_le_def)
  ultimately show "\<exists>b. decodePCMToAudioBuffer [0, 0, 0, 64] 24000 1 = Inr b \<and> ab_length b = 2 \<and>
        channel_data b ! 0 ! 0 = 0 \<and> channel_data b ! 0 ! 1 = 1 / 2"
    using b len by blast
next
  obtain b where b: "decodePCMToAudioBuffer [1, 0, 2, 0, 3, 0] 24000 2 = Inr b"
    and len: "ab_length b = 1"
    and v: "\<forall>c < 2. \<forall>i < ab_length b. channel_data b ! c ! i =
              of_int (sint (int16_of_le ([1, 0, 2, 0, 3, 0] ! (2 * (i * 2 + c)))
                                         ([1, 0, 2, 0, 3, 0] ! (2 * (i * 2 + c) + 1)))) / 32768"
    using decodePCM_deinterleave [of "[1, 0, 2, 0, 3, 0]" 2 24000] by auto
  have "channel_data b ! 0 ! 0 = 1 / 32768"
    using v [rule_format, of 0 0] len by (simp add: int16_of_le_def)
  moreover have "channel_data b ! 1 ! 0 = 2 / 32768"
    using v [rule_format, of 1 0] len by (simp add: int16_of_le_def)
  ultimately show "\<exists>b. decodePCMToAudioBuffer [1, 0, 2, 0, 3, 0] 24000 2 = Inr b \<and> ab_length b = 1 \<and>
        channel_data b ! 0 ! 0 = 1 / 32768 \<and> channel_data b ! 1 ! 0 = 2 / 32768"
    using b len by blast
qed

text \<open>
  C7. Errors: an odd number of bytes raises \<^verbatim>\<open>RangeError\<close> (from the
  \<^verbatim>\<open>Int16Array\<close> view); an empty payload, or zero channels, raises
  \<^verbatim>\<open>NotSupportedError\<close> (from \<^verbatim>\<open>createBuffer\<close>).
\<close>
theorem decodePCM_errors:
  "(odd (length data) \<longrightarrow> decodePCMToAudioBuffer data rate nch = Inl RangeError) \<and>
   decodePCMToAudioBuffer [] rate nch = Inl NotSupportedError \<and>
   (even (length data) \<longrightarrow> decodePCMToAudioBuffer data rate 0 = Inl NotSupportedError)"
  by (simp add: decodePCMToAudioBuffer_def int16_view_def createBuffer_def le_int16s_def)

theorem decodePCM_errors_witness:
  "decodePCMToAudioBuffer [1, 2, 3] 24000 1 = Inl RangeError \<and>
   decodePCMToAudioBuffer [] 24000 1 = Inl NotSupportedError \<and>
   decodePCMToAudioBuffer [1, 2] 24000 0 = Inl NotSupportedError"
  using decodePCM_errors [of "[1, 2, 3]" 24000 1] decodePCM_errors [of "[1, 2]" 24000 0]
  by simp

end
