(* ===== verification/Merge.thy ===== *)
theory Merge
  imports AudioBuffer
begin

text \<open>
  The concatenator of \<^verbatim>\<open>src/utils/audioUtils.ts\<close>, \<open>mergeAudioBuffers\<close>: no
  buffer gives a one-frame silent placeholder, one buffer is returned as it is,
  and several are copied channel by channel into a new buffer with the first
  buffer's channel count and rate, using \<^verbatim>\<open>TypedArray.prototype.set\<close> (which
  raises \<^verbatim>\<open>RangeError\<close> when the source does not fit at the offset) and
  \<^verbatim>\<open>getChannelData\<close> (which raises \<^verbatim>\<open>IndexSizeError\<close> for a missing channel).
\<close>

definition typed_set :: "sample list \<Rightarrow> sample list \<Rightarrow> nat \<Rightarrow> js_error + sample list" where
  "typed_set target source offset =
     (if length target < offset + length source then Inl RangeError
      else Inr (write_list target offset source))"

text \<open>The inner loop: one channel, every buffer in order, \<open>offset\<close> advancing by
  each buffer's length.\<close>
fun merge_into :: "audio_buffer \<Rightarrow> nat \<Rightarrow> nat \<Rightarrow> audio_buffer list \<Rightarrow> js_error + audio_buffer" where
  "merge_into result channel offset [] = Inr result"
| "merge_into result channel offset (buffer # buffers) =
     bindE (getChannelData result channel) (\<lambda>target.
     bindE (getChannelData buffer channel) (\<lambda>source.
     bindE (typed_set target source offset) (\<lambda>target'.
       merge_into (set_channel result channel target') channel (offset + ab_length buffer) buffers)))"

text \<open>The outer loop over the result's channels.\<close>
fun merge_channels :: "audio_buffer \<Rightarrow> audio_buffer list \<Rightarrow> nat list \<Rightarrow> js_error + audio_buffer" where
  "merge_channels result buffers [] = Inr result"
| "merge_channels result buffers (channel # cs) =
     bindE (merge_into result channel 0 buffers) (\<lambda>result. merge_channels result buffers cs)"

definition mergeAudioBuffers :: "audio_buffer list \<Rightarrow> js_error + audio_buffer" where
  "mergeAudioBuffers buffers =
     (case buffers of
        [] \<Rightarrow> createBuffer 1 1 24000
      | [buffer] \<Rightarrow> Inr buffer
      | first # _ \<Rightarrow>
          let totalLength = foldl (\<lambda>acc buf. acc + ab_length buf) 0 buffers
          in bindE (createBuffer (numberOfChannels first) (totalLength mod 2 ^ 32) (sampleRate first))
               (\<lambda>result. merge_channels result buffers [0..<numberOfChannels result]))"

text \<open>What concatenation means, per channel: the abstract result.\<close>
definition concat_channel :: "audio_buffer list \<Rightarrow> nat \<Rightarrow> sample list" where
  "concat_channel buffers c = concat (map (\<lambda>b. channel_data b ! c) buffers)"

definition total_length :: "audio_buffer list \<Rightarrow> nat" where
  "total_length buffers = sum_list (map ab_length buffers)"

section \<open>Lemmas\<close>

lemma foldl_total_length:
  "foldl (\<lambda>acc buf. acc + ab_length buf) a bs = a + total_length bs"
  by (induction bs arbitrary: a) (simp_all add: total_length_def)

lemma length_channel_wf:
  "wf_buffer b \<Longrightarrow> c < numberOfChannels b \<Longrightarrow> length (channel_data b ! c) = ab_length b"
  by (simp add: wf_buffer_def list_all_length)

lemma length_concat_channel:
  "\<forall>b \<in> set bs. wf_buffer b \<and> c < numberOfChannels b \<Longrightarrow>
   length (concat_channel bs c) = total_length bs"
  by (induction bs) (auto simp: concat_channel_def total_length_def length_channel_wf)

lemma set_channel_twice [simp]:
  "set_channel (set_channel r c xs) c ys = set_channel r c ys"
  by (simp add: set_channel_def)

lemma channel_data_set_channel:
  "c < length (channel_data r) \<Longrightarrow>
   channel_data (set_channel r c xs) ! c' = (if c' = c then xs else channel_data r ! c')"
  by (simp add: set_channel_def nth_list_update)

lemma length_channel_data_set_channel [simp]:
  "length (channel_data (set_channel r c xs)) = length (channel_data r)"
  by (simp add: set_channel_def)

lemma merge_into_ok:
  assumes "c < numberOfChannels r" "length (channel_data r) = numberOfChannels r"
    and "channel_data r ! c = xs" "off + total_length bs \<le> length xs"
    and "\<forall>b \<in> set bs. wf_buffer b \<and> c < numberOfChannels b"
  shows "merge_into r c off bs =
           Inr (set_channel r c (take off xs @ concat_channel bs c @ drop (off + total_length bs) xs))"
  using assms
proof (induction bs arbitrary: r off xs)
  case Nil
  have "set_channel r c xs = r"
    using Nil.prems(3) [symmetric] by (simp add: set_channel_def)
  then show ?case
    by (simp add: concat_channel_def total_length_def)
next
  case (Cons b bs)
  let ?ys = "channel_data b ! c"
  let ?xs' = "write_list xs off ?ys"
  let ?r' = "set_channel r c ?xs'"
  have wb: "wf_buffer b" "c < numberOfChannels b" using Cons.prems(5) by auto
  have ly: "length ?ys = ab_length b" using wb by (rule length_channel_wf)
  have fit: "off + length ?ys \<le> length xs"
    using Cons.prems(4) ly by (simp add: total_length_def)
  have xs': "?xs' = take off xs @ ?ys @ drop (off + length ?ys) xs"
    using fit by (rule write_list_splice)
  have step: "merge_into r c off (b # bs) = merge_into ?r' c (off + ab_length b) bs"
    using Cons.prems(1-3) wb fit by (simp add: getChannelData_def typed_set_def)
  have IH: "merge_into ?r' c (off + ab_length b) bs =
      Inr (set_channel ?r' c (take (off + ab_length b) ?xs' @ concat_channel bs c @
                              drop (off + ab_length b + total_length bs) ?xs'))"
    using Cons.prems Cons.IH [of ?r' ?xs' "off + ab_length b"]
    by (simp add: channel_data_set_channel total_length_def)
  have "take (off + ab_length b) ?xs' = take off xs @ ?ys"
    using xs' fit ly by simp
  moreover have "drop (off + ab_length b + total_length bs) ?xs' =
                 drop (off + total_length (b # bs)) xs"
    using xs' fit ly by (simp add: total_length_def ac_simps)
  ultimately show ?case
    using step IH by (simp add: concat_channel_def)
qed

lemma merge_into_missing:
  assumes "c < numberOfChannels r" "length (channel_data r) = numberOfChannels r"
    and "off + total_length bs \<le> length (channel_data r ! c)"
    and "\<forall>b \<in> set bs. wf_buffer b" "\<exists>b \<in> set bs. \<not> c < numberOfChannels b"
  shows "merge_into r c off bs = Inl IndexSizeError"
  using assms
proof (induction bs arbitrary: r off)
  case Nil
  then show ?case by simp
next
  case (Cons b bs)
  show ?case
  proof (cases "c < numberOfChannels b")
    case False
    with Cons.prems(1) show ?thesis by (simp add: getChannelData_def)
  next
    case True
    let ?ys = "channel_data b ! c"
    let ?r' = "set_channel r c (write_list (channel_data r ! c) off ?ys)"
    have ly: "length ?ys = ab_length b"
      using Cons.prems(4) True by (simp add: length_channel_wf)
    have fit: "off + length ?ys \<le> length (channel_data r ! c)"
      using Cons.prems(3) ly by (simp add: total_length_def)
    have "merge_into r c off (b # bs) = merge_into ?r' c (off + ab_length b) bs"
      using Cons.prems(1) True fit by (simp add: getChannelData_def typed_set_def)
    also have "\<dots> = Inl IndexSizeError"
      using Cons.prems True ly
      by (intro Cons.IH) (simp_all add: channel_data_set_channel total_length_def)
    finally show ?thesis .
  qed
qed

lemma merge_into_channel:
  assumes "c < numberOfChannels r" "length (channel_data r) = numberOfChannels r"
    and "length (channel_data r ! c) = total_length bs"
    and "\<forall>b \<in> set bs. wf_buffer b \<and> c < numberOfChannels b"
  shows "merge_into r c 0 bs = Inr (set_channel r c (concat_channel bs c))"
  using merge_into_ok [OF assms(1,2) refl, of 0 bs] assms(3,4) by simp

lemma merge_channels_ok:
  assumes "distinct cs" "length (channel_data r) = numberOfChannels r"
    and "\<forall>c \<in> set cs. c < numberOfChannels r \<and> length (channel_data r ! c) = total_length bs"
    and "\<forall>b \<in> set bs. wf_buffer b \<and> (\<forall>c \<in> set cs. c < numberOfChannels b)"
  shows "merge_channels r bs cs = Inr (foldl (\<lambda>r c. set_channel r c (concat_channel bs c)) r cs)"
  using assms
proof (induction cs arbitrary: r)
  case Nil
  then show ?case by simp
next
  case (Cons c cs)
  have "merge_into r c 0 bs = Inr (set_channel r c (concat_channel bs c))"
    using Cons.prems by (intro merge_into_channel) auto
  moreover have "merge_channels (set_channel r c (concat_channel bs c)) bs cs =
      Inr (foldl (\<lambda>r c. set_channel r c (concat_channel bs c)) (set_channel r c (concat_channel bs c)) cs)"
    using Cons.prems by (intro Cons.IH) (auto simp: channel_data_set_channel)
  ultimately show ?case by simp
qed

lemma merge_channels_missing:
  assumes "distinct cs" "length (channel_data r) = numberOfChannels r"
    and "\<forall>c \<in> set cs. c < numberOfChannels r \<and> length (channel_data r ! c) = total_length bs"
    and "\<forall>b \<in> set bs. wf_buffer b" "\<exists>c \<in> set cs. \<exists>b \<in> set bs. \<not> c < numberOfChannels b"
  shows "merge_channels r bs cs = Inl IndexSizeError"
  using assms
proof (induction cs arbitrary: r)
  case Nil
  then show ?case by simp
next
  case (Cons c cs)
  show ?case
  proof (cases "\<forall>b \<in> set bs. c < numberOfChannels b")
    case False
    then have "merge_into r c 0 bs = Inl IndexSizeError"
      using Cons.prems by (intro merge_into_missing) auto
    then show ?thesis by simp
  next
    case True
    then have "merge_into r c 0 bs = Inr (set_channel r c (concat_channel bs c))"
      using Cons.prems by (intro merge_into_channel) auto
    moreover have "merge_channels (set_channel r c (concat_channel bs c)) bs cs = Inl IndexSizeError"
      using Cons.prems True by (intro Cons.IH) (auto simp: channel_data_set_channel)
    ultimately show ?thesis by simp
  qed
qed

lemma mergeAudioBuffers_many:
  assumes "2 \<le> length bs" "\<forall>b \<in> set bs. wf_buffer b" "total_length bs < 2 ^ 32"
  shows "mergeAudioBuffers bs =
           bindE (createBuffer (numberOfChannels (hd bs)) (total_length bs) (sampleRate (hd bs)))
             (\<lambda>result. merge_channels result bs [0..<numberOfChannels result])"
proof -
  obtain b0 b1 rest where bs: "bs = b0 # b1 # rest"
    using assms(1) by (cases bs rule: remdups_adj.cases) auto
  then show ?thesis
    using assms(3) by (simp add: mergeAudioBuffers_def foldl_total_length del: foldl_Cons)
qed

lemma createBuffer_total:
  assumes "2 \<le> length bs" "\<forall>b \<in> set bs. wf_buffer b"
  shows "createBuffer (numberOfChannels (hd bs)) (total_length bs) (sampleRate (hd bs)) =
           Inr \<lparr>numberOfChannels = numberOfChannels (hd bs), ab_length = total_length bs,
                sampleRate = sampleRate (hd bs),
                channel_data = replicate (numberOfChannels (hd bs)) (replicate (total_length bs) 0)\<rparr>"
proof -
  obtain b0 rest where bs: "bs = b0 # rest" using assms(1) by (cases bs) auto
  then have "wf_buffer b0" using assms(2) by simp
  moreover have "ab_length b0 \<le> total_length bs" by (simp add: bs total_length_def)
  ultimately show ?thesis by (auto simp: createBuffer_def wf_buffer_def bs)
qed

lemma mergeAudioBuffers_eq:
  assumes "2 \<le> length bs" "\<forall>b \<in> set bs. wf_buffer b"
    and "\<forall>b \<in> set bs. numberOfChannels (hd bs) \<le> numberOfChannels b"
    and "total_length bs < 2 ^ 32"
  shows "mergeAudioBuffers bs =
           Inr \<lparr>numberOfChannels = numberOfChannels (hd bs), ab_length = total_length bs,
                sampleRate = sampleRate (hd bs),
                channel_data = map (concat_channel bs) [0..<numberOfChannels (hd bs)]\<rparr>"
proof -
  let ?n = "numberOfChannels (hd bs)"
  let ?r = "\<lparr>numberOfChannels = ?n, ab_length = total_length bs, sampleRate = sampleRate (hd bs),
             channel_data = replicate ?n (replicate (total_length bs) (0 :: sample))\<rparr>"
  have "merge_channels ?r bs [0..<?n] =
          Inr (foldl (\<lambda>r c. set_channel r c (concat_channel bs c)) ?r [0..<?n])"
    using assms(2,3) by (intro merge_channels_ok) auto
  also have "foldl (\<lambda>r c. set_channel r c (concat_channel bs c)) ?r [0..<?n] =
             ?r\<lparr>channel_data := map (concat_channel bs) [0..<?n]\<rparr>"
    using foldl_set_channel_upt [where F = "\<lambda>c _. concat_channel bs c" and b = ?r and k = ?n]
    by simp
  finally show ?thesis
    using assms by (simp add: mergeAudioBuffers_many createBuffer_total)
qed

lemma wf_merged:
  assumes "2 \<le> length bs" "\<forall>b \<in> set bs. wf_buffer b"
    and "\<forall>b \<in> set bs. numberOfChannels (hd bs) \<le> numberOfChannels b"
  shows "wf_buffer \<lparr>numberOfChannels = numberOfChannels (hd bs), ab_length = total_length bs,
                     sampleRate = sampleRate (hd bs),
                     channel_data = map (concat_channel bs) [0..<numberOfChannels (hd bs)]\<rparr>"
proof -
  obtain b0 rest where bs: "bs = b0 # rest" using assms(1) by (cases bs) auto
  have "length (concat_channel bs c) = total_length bs" if "c < numberOfChannels b0" for c
    using assms(2,3) that bs by (intro length_concat_channel) (auto intro: less_le_trans)
  moreover have "wf_buffer b0" using assms(2) bs by simp
  moreover have "ab_length b0 \<le> total_length bs" by (simp add: bs total_length_def)
  ultimately show ?thesis by (auto simp: wf_buffer_def list_all_length bs)
qed

lemma merge_into_rate:
  "merge_into result c off bs = Inr r \<Longrightarrow> sampleRate r = sampleRate result"
  by (induction result c off bs rule: merge_into.induct)
     (auto simp: bindE_eq_Inr_conv)

lemma merge_channels_rate:
  "merge_channels result bs cs = Inr r \<Longrightarrow> sampleRate r = sampleRate result"
  by (induction result bs cs rule: merge_channels.induct)
     (auto simp: bindE_eq_Inr_conv dest!: merge_into_rate)

lemma merge_rate:
  "mergeAudioBuffers bs = Inr m \<Longrightarrow> sampleRate m = (case bs of [] \<Rightarrow> 24000 | b # _ \<Rightarrow> sampleRate b)"
  by (auto simp: mergeAudioBuffers_def createBuffer_Inr_conv bindE_eq_Inr_conv Let_def
           dest!: merge_channels_rate split: list.splits)

lemma mergeAudioBuffers_single [simp]: "mergeAudioBuffers [b] = Inr b"
  by (simp add: mergeAudioBuffers_def)

lemma merge_into_overflow:
  assumes "c < numberOfChannels result" "c < length (channel_data result)" "off \<le> length (channel_data result ! c)"
    and "\<forall>b \<in> set bs. wf_buffer b \<and> c < numberOfChannels b"
    and "length (channel_data result ! c) < off + total_length bs"
  shows "merge_into result c off bs = Inl RangeError"
  using assms
proof (induction bs arbitrary: result off)
  case Nil
  then show ?case by (simp add: total_length_def)
next
  case (Cons b bs)
  let ?t = "channel_data result ! c"
  have c: "c < numberOfChannels result" "c < numberOfChannels b" "wf_buffer b"
    using Cons.prems(1,4) by simp_all
  show ?case
  proof (cases "length ?t < off + ab_length b")
    case True
    then show ?thesis
      using c by (simp add: getChannelData_def typed_set_def length_channel_wf)
  next
    case False
    let ?r = "set_channel result c (write_list ?t off (channel_data b ! c))"
    have "merge_into ?r c (off + ab_length b) bs = Inl RangeError"
      using Cons.prems False
      by (intro Cons.IH) (simp_all add: channel_data_set_channel total_length_def)
    then show ?thesis
      using c False by (simp add: getChannelData_def typed_set_def length_channel_wf)
  qed
qed

section \<open>Properties of the concatenator\<close>

text \<open>
  C8. Concatenation: for two or more well-formed buffers none of which has fewer
  channels than the first, the merge succeeds with a well-formed buffer that has
  the first buffer's channel count and rate, the sum of the frame counts, and in
  each channel the buffers' samples of that channel one after the other.
\<close>
theorem mergeAudioBuffers_concat:
  assumes "2 \<le> length bs" "\<forall>b \<in> set bs. wf_buffer b"
    and "\<forall>b \<in> set bs. numberOfChannels (hd bs) \<le> numberOfChannels b"
    and "total_length bs < 2 ^ 32"
  shows "\<exists>r. mergeAudioBuffers bs = Inr r \<and> wf_buffer r \<and>
             numberOfChannels r = numberOfChannels (hd bs) \<and> sampleRate r = sampleRate (hd bs) \<and>
             ab_length r = sum_list (map ab_length bs) \<and>
             (\<forall>c < numberOfChannels r. channel_data r ! c = concat (map (\<lambda>b. channel_data b ! c) bs))"
  using mergeAudioBuffers_eq [OF assms] wf_merged [OF assms(1-3)]
  by (simp add: total_length_def concat_channel_def)

theorem mergeAudioBuffers_concat_witness:
  "\<exists>r. mergeAudioBuffers
         [\<lparr>numberOfChannels = 1, ab_length = 1, sampleRate = 24000, channel_data = [[1 / 2]]\<rparr>,
          \<lparr>numberOfChannels = 1, ab_length = 2, sampleRate = 24000, channel_data = [[1 / 4, 0]]\<rparr>] = Inr r \<and>
       ab_length r = 3 \<and> channel_data r ! 0 = [1 / 2, 1 / 4, 0]"
proof -
  let ?bs = "[\<lparr>numberOfChannels = 1, ab_length = 1, sampleRate = 24000, channel_data = [[1 / 2 :: sample]]\<rparr>,
              \<lparr>numberOfChannels = 1, ab_length = 2, sampleRate = 24000, channel_data = [[1 / 4, 0]]\<rparr>]"
  have h: "2 \<le> length ?bs" "\<forall>b \<in> set ?bs. wf_buffer b"
    "\<forall>b \<in> set ?bs. numberOfChannels (hd ?bs) \<le> numberOfChannels b" "total_length ?bs < 2 ^ 32"
    by (simp_all add: wf_buffer_def total_length_def)
  from mergeAudioBuffers_concat [OF h] obtain r where
    "mergeAudioBuffers ?bs = Inr r" "ab_length r = sum_list (map ab_length ?bs)"
    "\<forall>c < numberOfChannels r. channel_data r ! c = concat (map (\<lambda>b. channel_data b ! c) ?bs)"
    "numberOfChannels r = 1"
    by auto
  then show ?thesis by auto
qed

text \<open>
  C9. Channel mismatch: for two or more well-formed buffers, the merge raises
  (\<^verbatim>\<open>IndexSizeError\<close>) exactly when some buffer has fewer channels than the first;
  a buffer with more channels, or with another rate, is merged without an error.
\<close>
theorem mergeAudioBuffers_channel_mismatch:
  assumes "2 \<le> length bs" "\<forall>b \<in> set bs. wf_buffer b" "total_length bs < 2 ^ 32"
  shows "mergeAudioBuffers bs = Inl IndexSizeError \<longleftrightarrow>
           (\<exists>b \<in> set bs. numberOfChannels b < numberOfChannels (hd bs))"
proof
  assume "\<exists>b \<in> set bs. numberOfChannels b < numberOfChannels (hd bs)"
  then obtain b where b: "b \<in> set bs" "numberOfChannels b < numberOfChannels (hd bs)" by blast
  let ?n = "numberOfChannels (hd bs)"
  let ?r = "\<lparr>numberOfChannels = ?n, ab_length = total_length bs, sampleRate = sampleRate (hd bs),
             channel_data = replicate ?n (replicate (total_length bs) (0 :: sample))\<rparr>"
  have "merge_channels ?r bs [0..<?n] = Inl IndexSizeError"
    using assms(2) b by (intro merge_channels_missing) auto
  then show "mergeAudioBuffers bs = Inl IndexSizeError"
    using assms by (simp add: mergeAudioBuffers_many createBuffer_total)
next
  assume err: "mergeAudioBuffers bs = Inl IndexSizeError"
  show "\<exists>b \<in> set bs. numberOfChannels b < numberOfChannels (hd bs)"
  proof (rule ccontr)
    assume "\<not> ?thesis"
    then have "\<forall>b \<in> set bs. numberOfChannels (hd bs) \<le> numberOfChannels b"
      by (auto simp: not_less)
    with assms err show False
      using mergeAudioBuffers_eq [OF assms(1,2)] by simp
  qed
qed

theorem mergeAudioBuffers_channel_mismatch_witness:
  "mergeAudioBuffers
     [\<lparr>numberOfChannels = 2, ab_length = 1, sampleRate = 24000, channel_data = [[0], [0]]\<rparr>,
      \<lparr>numberOfChannels = 1, ab_length = 1, sampleRate = 24000, channel_data = [[0]]\<rparr>] =
     Inl IndexSizeError \<and>
   mergeAudioBuffers
     [\<lparr>numberOfChannels = 1, ab_length = 1, sampleRate = 24000, channel_data = [[0]]\<rparr>,
      \<lparr>numberOfChannels = 2, ab_length = 1, sampleRate = 48000, channel_data = [[0], [0]]\<rparr>] \<noteq>
     Inl IndexSizeError"
  using mergeAudioBuffers_channel_mismatch
          [of "[\<lparr>numberOfChannels = 2, ab_length = 1, sampleRate = 24000, channel_data = [[0], [0]]\<rparr>,
                \<lparr>numberOfChannels = 1, ab_length = 1, sampleRate = 24000, channel_data = [[0]]\<rparr>]"]
        mergeAudioBuffers_channel_mismatch
          [of "[\<lparr>numberOfChannels = 1, ab_length = 1, sampleRate = 24000, channel_data = [[0]]\<rparr>,
                \<lparr>numberOfChannels = 2, ab_length = 1, sampleRate = 48000, channel_data = [[0], [0]]\<rparr>]"]
  by (simp add: wf_buffer_def total_length_def)

text \<open>
  C10. Overflow: when the frame counts of two or more well-formed buffers add up to
  \<open>2^32\<close> or more, the total passed to \<^verbatim>\<open>createBuffer\<close> wraps (WebIDL
  \<open>unsigned long\<close>), and the merge raises: \<^verbatim>\<open>NotSupportedError\<close> when the
  wrapped total is 0, otherwise \<^verbatim>\<open>RangeError\<close> from the first
  \<^verbatim>\<open>set\<close> that no longer fits. It never returns a truncated buffer.
\<close>
theorem mergeAudioBuffers_overflow:
  assumes "2 \<le> length bs" "\<forall>b \<in> set bs. wf_buffer b" "2 ^ 32 \<le> total_length bs"
  shows "mergeAudioBuffers bs =
           Inl (if total_length bs mod 2 ^ 32 = 0 then NotSupportedError else RangeError)"
proof -
  obtain b0 b1 rest where bs: "bs = b0 # b1 # rest"
    using assms(1) by (cases bs rule: remdups_adj.cases) auto
  let ?n = "numberOfChannels b0"
  let ?L = "total_length bs mod 2 ^ 32"
  have w: "wf_buffer b0" using assms(2) bs by simp
  then have n: "0 < ?n" "?n \<le> 32" "3000 \<le> sampleRate b0" "sampleRate b0 \<le> 768000"
    by (simp_all add: wf_buffer_def)
  have tl: "foldl (\<lambda>acc buf. acc + ab_length buf) 0 bs = total_length bs"
    by (simp add: foldl_total_length)
  show ?thesis
  proof (cases "?L = 0")
    case True
    then show ?thesis
      using tl by (simp add: bs mergeAudioBuffers_def createBuffer_def del: foldl_Cons)
  next
    case False
    let ?r = "\<lparr>numberOfChannels = ?n, ab_length = ?L, sampleRate = sampleRate b0,
               channel_data = replicate ?n (replicate ?L (0 :: sample))\<rparr>"
    have "?L < total_length bs" using assms(3) by (simp add: mod_less_eq_dividend order.strict_trans2)
    then have "merge_into ?r 0 0 bs = Inl RangeError"
      using assms(2) n(1) by (intro merge_into_overflow) (auto simp: wf_buffer_def)
    moreover have "[0..<?n] = 0 # [1..<?n]" using n(1) by (simp add: upt_rec)
    ultimately have "merge_channels ?r bs [0..<?n] = Inl RangeError" by simp
    then show ?thesis
      using tl False n by (simp add: bs mergeAudioBuffers_def createBuffer_def del: foldl_Cons)
  qed
qed

theorem mergeAudioBuffers_overflow_witness:
  "mergeAudioBuffers
     [\<lparr>numberOfChannels = 1, ab_length = 2 ^ 31, sampleRate = 24000, channel_data = [replicate (2 ^ 31) 0]\<rparr>,
      \<lparr>numberOfChannels = 1, ab_length = 2 ^ 31, sampleRate = 24000, channel_data = [replicate (2 ^ 31) 0]\<rparr>] =
     Inl NotSupportedError \<and>
   mergeAudioBuffers
     [\<lparr>numberOfChannels = 1, ab_length = 2 ^ 31, sampleRate = 24000, channel_data = [replicate (2 ^ 31) 0]\<rparr>,
      \<lparr>numberOfChannels = 2, ab_length = 2 ^ 31 + 1, sampleRate = 48000,
       channel_data = [replicate (2 ^ 31 + 1) 0, replicate (2 ^ 31 + 1) 0]\<rparr>] =
     Inl RangeError"
  using mergeAudioBuffers_overflow
          [of "[\<lparr>numberOfChannels = 1, ab_length = 2 ^ 31, sampleRate = 24000, channel_data = [replicate (2 ^ 31) 0]\<rparr>,
                \<lparr>numberOfChannels = 1, ab_length = 2 ^ 31, sampleRate = 24000, channel_data = [replicate (2 ^ 31) 0]\<rparr>]"]
        mergeAudioBuffers_overflow
          [of "[\<lparr>numberOfChannels = 1, ab_length = 2 ^ 31, sampleRate = 24000, channel_data = [replicate (2 ^ 31) 0]\<rparr>,
                \<lparr>numberOfChannels = 2, ab_length = 2 ^ 31 + 1, sampleRate = 48000,
                 channel_data = [replicate (2 ^ 31 + 1) 0, replicate (2 ^ 31 + 1) 0]\<rparr>]"]
  by (simp add: wf_buffer_def total_length_def)

end
