(* ===== verification/Chunker.thy ===== *)
theory Chunker
  imports Prelude
begin

text \<open>
  The chunker of \<^verbatim>\<open>src/services/ttsService.ts\<close>, \<open>TTSService.chunkText\<close>:
  \<^verbatim>\<open>text.split(/\s+/)\<close>, then a loop that pushes
  \<^verbatim>\<open>words.slice(i, i + maxWords).join(' ')\<close> for \<open>i = 0, maxWords, ...\<close>
  while \<open>i < words.length\<close>. The split follows ECMAScript's
  \<^verbatim>\<open>@@split\<close> with a regular expression that matches no empty string: the text is
  cut at every maximal run of white space (the \<^verbatim>\<open>\s\<close> class: the ASCII spaces,
  NBSP, the Unicode space separators, the line and paragraph separators and the
  BOM), so a leading or trailing run gives an empty first or last word, and the
  empty text gives one empty word. The loop is a \<^theory_text>\<open>partial_function\<close>:
  with \<open>maxWords = 0\<close> it never ends.
\<close>

definition js_space :: "16 word \<Rightarrow> bool" where
  "js_space c \<longleftrightarrow>
     (let n = unat c in
      n \<in> {9, 10, 11, 12, 13, 32, 160, 5760, 8232, 8233, 8239, 8287, 12288, 65279} \<or>
      (8192 \<le> n \<and> n \<le> 8202))"

text \<open>The scan of \<^verbatim>\<open>split(/\s+/)\<close>, \<open>w\<close> holding the current word reversed.\<close>
function split_acc :: "js_string \<Rightarrow> js_string \<Rightarrow> js_string list" where
  "split_acc w [] = [rev w]"
| "split_acc w (c # cs) =
     (if js_space c then rev w # split_acc [] (dropWhile js_space cs)
      else split_acc (c # w) cs)"
  by pat_completeness auto
termination
  by (relation "measure (\<lambda>(w, s). length s)") (auto simp: le_imp_less_Suc length_dropWhile_le)

definition split_ws :: "js_string \<Rightarrow> js_string list" where
  "split_ws s = split_acc [] s"

text \<open>\<^verbatim>\<open>Array.prototype.join(sep)\<close>.\<close>
fun join_words :: "js_string \<Rightarrow> js_string list \<Rightarrow> js_string" where
  "join_words sep [] = []"
| "join_words sep [w] = w"
| "join_words sep (w # ws) = w @ sep @ join_words sep ws"

text \<open>The \<^verbatim>\<open>for\<close> loop: \<open>i\<close> advances by \<open>maxWords\<close>; \<open>pushed\<close> is the array \<^verbatim>\<open>chunks\<close>.\<close>
partial_function (option) chunk_loop ::
  "nat \<Rightarrow> js_string list \<Rightarrow> nat \<Rightarrow> js_string list \<Rightarrow> js_string list option" where
  "chunk_loop maxWords words i pushed =
     (if i < length words
      then chunk_loop maxWords words (i + maxWords)
             (pushed @ [join_words (js '' '') (take maxWords (drop i words))])
      else Some pushed)"

definition chunkText :: "js_string \<Rightarrow> nat \<Rightarrow> js_string list option" where
  "chunkText text maxWords = chunk_loop maxWords (split_ws text) 0 []"

text \<open>The words of a text in the spec's sense: the maximal runs of non-space.\<close>
definition words_of :: "js_string \<Rightarrow> js_string list" where
  "words_of s = filter (\<lambda>w. w \<noteq> []) (split_ws s)"

section \<open>Lemmas\<close>

lemma chunk_loop_eq:
  "0 < mw \<Longrightarrow>
   chunk_loop mw words i acc = Some (acc @ map (join_words (js '' '')) (chunks mw (drop i words)))"
proof (induction "length words - i" arbitrary: i acc rule: less_induct)
  case less
  show ?case
  proof (cases "i < length words")
    case True
    have "chunk_loop mw words i acc =
          chunk_loop mw words (i + mw) (acc @ [join_words (js '' '') (take mw (drop i words))])"
      using True by (simp add: chunk_loop.simps [of mw words i acc])
    also have "\<dots> = Some ((acc @ [join_words (js '' '') (take mw (drop i words))]) @
                          map (join_words (js '' '')) (chunks mw (drop (i + mw) words)))"
      using True less.prems by (intro less.hyps) auto
    also have "chunks mw (drop i words) = take mw (drop i words) # chunks mw (drop (i + mw) words)"
      using True less.prems by (simp add: chunks_Cons_eq add.commute)
    ultimately show ?thesis by simp
  next
    case False
    then show ?thesis by (simp add: chunk_loop.simps [of mw words i acc])
  qed
qed

lemma chunk_loop_returns_past_end:
  assumes ret: "chunk_loop mw ws i a = Some y"
  shows "mw = 0 \<longrightarrow> \<not> i < length ws"
proof (rule chunk_loop.raw_induct [where P = "\<lambda>mw ws i a y. mw = 0 \<longrightarrow> \<not> i < length ws", OF _ ret])
  fix f mw ws i a y
  assume IH: "\<And>mw ws i a y. f mw ws i a = Some y \<Longrightarrow> mw = 0 \<longrightarrow> \<not> i < length ws"
    and eq: "(if i < length ws
              then f mw ws (i + mw) (a @ [join_words (js '' '') (take mw (drop i ws))])
              else Some a) = Some y"
  show "mw = 0 \<longrightarrow> \<not> i < length ws"
  proof (intro impI notI)
    assume z: "mw = 0" and lt: "i < length ws"
    with eq have "f mw ws (i + mw) (a @ [join_words (js '' '') (take mw (drop i ws))]) = Some y"
      by simp
    from IH [OF this] z lt show False by simp
  qed
qed

lemma chunk_loop_zero:
  "i < length words \<Longrightarrow> chunk_loop 0 words i acc = None"
  using chunk_loop_returns_past_end [of 0 words i acc] by (cases "chunk_loop 0 words i acc") auto

lemma split_acc_nonempty: "split_acc w s \<noteq> []"
  by (induction w s rule: split_acc.induct) auto

lemma split_acc_nospace:
  "\<forall>c \<in> set u. \<not> js_space c \<Longrightarrow> split_acc w (u @ s) = split_acc (rev u @ w) s"
  by (induction u arbitrary: w) auto

lemma split_acc_space_free:
  "list_all (\<lambda>c. \<not> js_space c) w \<Longrightarrow> list_all (list_all (\<lambda>c. \<not> js_space c)) (split_acc w s)"
  by (induction w s rule: split_acc.induct) simp_all

lemma split_ws_space_free: "list_all (list_all (\<lambda>c. \<not> js_space c)) (split_ws s)"
  unfolding split_ws_def by (rule split_acc_space_free) simp

lemma filter_split_dropWhile:
  "filter (\<lambda>w. w \<noteq> []) (split_acc [] (dropWhile js_space s)) =
   filter (\<lambda>w. w \<noteq> []) (split_acc [] s)"
  by (cases s) auto

lemma js_space_32 [simp]: "js '' '' = [32]" "js_space 32"
  by (simp_all add: js_def js_space_def)

lemma words_of_join:
  "\<forall>w \<in> set ws. \<forall>c \<in> set w. \<not> js_space c \<Longrightarrow>
   words_of (join_words (js '' '') ws) = filter (\<lambda>w. w \<noteq> []) ws"
proof (induction ws rule: induct_list012)
  case 1
  then show ?case by (simp add: words_of_def split_ws_def)
next
  case (2 w)
  then show ?case
    using split_acc_nospace [of w "[]" "[]"] by (simp add: words_of_def split_ws_def)
next
  case (3 w v vs)
  let ?ne = "\<lambda>w :: js_string. w \<noteq> []"
  let ?rest = "join_words [32] (v # vs)"
  have j: "join_words (js '' '') (w # v # vs) = w @ 32 # ?rest" by simp
  have w: "\<forall>c \<in> set w. \<not> js_space c" using "3.prems" by simp
  have "words_of (join_words (js '' '') (w # v # vs)) = filter ?ne (split_acc [] (w @ 32 # ?rest))"
    by (simp only: words_of_def split_ws_def j)
  also have "split_acc [] (w @ 32 # ?rest) = w # split_acc [] (dropWhile js_space ?rest)"
    using split_acc_nospace [OF w, of "[]" "32 # ?rest"] by simp
  also have "filter ?ne (w # split_acc [] (dropWhile js_space ?rest)) =
             filter ?ne [w] @ filter ?ne (split_acc [] ?rest)"
    using filter_split_dropWhile [of ?rest] by simp
  also have "filter ?ne (split_acc [] ?rest) = filter ?ne (v # vs)"
    using "3.IH"(2) "3.prems" by (simp add: words_of_def split_ws_def)
  finally show ?case by simp
qed

lemma chunkText_Some:
  "0 < maxWords \<Longrightarrow>
   chunkText text maxWords = Some (map (join_words (js '' '')) (chunks maxWords (split_ws text)))"
  by (simp add: chunkText_def chunk_loop_eq)

lemma split_ws_nonempty: "split_ws s \<noteq> []"
  by (simp add: split_ws_def split_acc_nonempty)

lemma words_of_chunks:
  assumes "list_all (list_all (\<lambda>c. \<not> js_space c)) ws"
  shows "concat (map (words_of \<circ> join_words (js '' '')) (chunks k ws)) = filter (\<lambda>w. w \<noteq> []) ws"
proof -
  have "\<forall>sl \<in> set (chunks k ws). words_of (join_words (js '' '') sl) = filter (\<lambda>w. w \<noteq> []) sl"
  proof
    fix sl assume "sl \<in> set (chunks k ws)"
    then have "set sl \<subseteq> set ws" by (metis concat_chunks set_concat UN_upper)
    then show "words_of (join_words (js '' '') sl) = filter (\<lambda>w. w \<noteq> []) sl"
      using assms by (intro words_of_join) (auto simp: list_all_iff)
  qed
  then have "concat (map (words_of \<circ> join_words (js '' '')) (chunks k ws)) =
             concat (map (filter (\<lambda>w. w \<noteq> [])) (chunks k ws))"
    by (simp cong: map_cong)
  also have "\<dots> = filter (\<lambda>w. w \<noteq> []) (concat (chunks k ws))"
    by (metis concat_chunks filter_concat)
  finally show ?thesis by simp
qed

lemma split_ws_blank:
  "list_all js_space s \<Longrightarrow> split_ws s = (if s = [] then [[]] else [[], []])"
  by (cases s) (simp_all add: split_ws_def dropWhile_all)

lemma chunkText_blank_800:
  "list_all js_space text \<Longrightarrow> chunkText text 800 = Some [if text = [] then [] else js '' '']"
  by (simp add: chunkText_Some split_ws_blank)

section \<open>Properties of the chunker\<close>

text \<open>
  C11. For \<open>maxWords > 0\<close> the loop ends, with at least one chunk: the chunks'
  words, in order, are exactly the words of the text (none dropped, duplicated or
  reordered), no chunk has more than \<open>maxWords\<close> words, and there are
  \<open>\<lceil>n / maxWords\<rceil>\<close> chunks for the \<open>n\<close> pieces of the split.
\<close>
theorem chunkText_partition:
  assumes "0 < maxWords"
  shows "\<exists>cs. chunkText text maxWords = Some cs \<and> cs \<noteq> [] \<and>
             concat (map words_of cs) = words_of text \<and>
             list_all (\<lambda>c. length (words_of c) \<le> maxWords) cs \<and>
             length cs = (length (split_ws text) + maxWords - 1) div maxWords"
proof -
  let ?ws = "split_ws text"
  let ?cs = "map (join_words (js '' '')) (chunks maxWords ?ws)"
  have free: "list_all (list_all (\<lambda>c. \<not> js_space c)) ?ws" by (rule split_ws_space_free)
  have "concat (map words_of ?cs) = words_of text"
    using words_of_chunks [OF free, of maxWords] by (simp add: words_of_def)
  moreover have "list_all (\<lambda>c. length (words_of c) \<le> maxWords) ?cs"
  proof -
    have "length (words_of (join_words (js '' '') sl)) \<le> maxWords" if "sl \<in> set (chunks maxWords ?ws)" for sl
    proof -
      have "set sl \<subseteq> set ?ws" using that by (metis concat_chunks set_concat UN_upper)
      then have "words_of (join_words (js '' '') sl) = filter (\<lambda>w. w \<noteq> []) sl"
        using free by (intro words_of_join) (auto simp: list_all_iff)
      moreover have "length sl \<le> maxWords" by (rule chunks_length_le [OF assms that])
      ultimately show ?thesis by (metis length_filter_le order_trans)
    qed
    then show ?thesis by (simp add: list_all_iff)
  qed
  moreover have "?cs \<noteq> []"
    using split_ws_nonempty [of "text"] assms by (cases ?ws) auto
  ultimately show ?thesis
    using assms by (simp add: chunkText_Some length_chunks)
qed

theorem chunkText_partition_witness:
  "chunkText (js ''a b c'') 2 = Some [js ''a b'', js ''c''] \<and>
   concat (map words_of [js ''a b'', js ''c'']) = words_of (js ''a b c'')"
proof -
  obtain cs where cs: "chunkText (js ''a b c'') 2 = Some cs"
    and w: "concat (map words_of cs) = words_of (js ''a b c'')"
    using chunkText_partition [of 2 "js ''a b c''"] by auto
  have "chunkText (js ''a b c'') 2 = Some [js ''a b'', js ''c'']"
    by (simp add: chunkText_Some split_ws_def js_def js_space_def)
  with cs w show ?thesis by simp
qed

text \<open>
  C12. With \<open>maxWords = 0\<close> the loop never ends (\<open>i\<close> never advances), for every
  text.
\<close>
theorem chunkText_diverges: "chunkText text 0 = None"
proof -
  have "0 < length (split_ws text)" using split_ws_nonempty [of "text"] by simp
  then show ?thesis by (simp add: chunkText_def chunk_loop_zero)
qed

end
