(* ===== verification/TtsService.thy ===== *)
theory TtsService
  imports Base64 Pcm Merge Wav Chunker
begin

text \<open>
  The orchestrator of \<^verbatim>\<open>src/services/ttsService.ts\<close>,
  \<open>TTSService.generateSpeech\<close>: chunk the text (800 words per chunk), then for
  each chunk in order report progress, call the speech service with the styled
  prompt and the voice, reject a response without audio data, decode the base64
  payload and the 24 kHz mono PCM into a buffer; after the loop report 100, merge
  the buffers and encode the WAV blob. The remote service is a parameter: any
  function of the call's index, prompt and voice, so that every behaviour of the
  service (answers that differ from call to call, failures at any call) is
  covered. Its answer is either a rejection carrying an exception, or a response
  whose \<^verbatim>\<open>candidates[0].content.parts[0].inlineData.data\<close> is present or not.
  The observable effects are a trace of events, in the order the code performs
  them: each invocation of the progress callback and each request to the service.
  Progress values are computed exactly (\<open>rat\<close>) rather than in binary floating
  point. The constructor's effects, the API key and the audio context's rate, are
  the record \<open>tts_service\<close>.
\<close>

section \<open>Voices (\<^verbatim>\<open>src/types.ts\<close>)\<close>

datatype voice = ZEPHYR | PUCK | CHARON | KORE | FENRIR

fun voice_name :: "voice \<Rightarrow> js_string" where
  "voice_name ZEPHYR = js ''Zephyr''"
| "voice_name PUCK = js ''Puck''"
| "voice_name CHARON = js ''Charon''"
| "voice_name KORE = js ''Kore''"
| "voice_name FENRIR = js ''Fenrir''"

section \<open>The service and the trace\<close>

datatype api_result =
    ApiFailure js_error
  | ApiResponse "js_string option"

type_synonym speech_service = "nat \<Rightarrow> js_string \<Rightarrow> voice \<Rightarrow> api_result"

datatype event =
    Progress rat
  | Request js_string voice

definition no_audio_message :: js_string where
  "no_audio_message = js ''No audio data returned from Gemini API''"

definition prompt :: "js_string \<Rightarrow> js_string \<Rightarrow> js_string" where
  "prompt style chunk =
     js ''Style instruction: '' @ style @ js ''. Please say the following clearly: '' @ chunk"

text \<open>One iteration's work after the progress report: the request, the check of
  the payload (\<^verbatim>\<open>!base64Audio\<close> holds for a missing and for an empty string),
  and the two decoders with their default rate and channel count.\<close>
definition synth_chunk ::
  "speech_service \<Rightarrow> voice \<Rightarrow> js_string \<Rightarrow> nat \<Rightarrow> js_string \<Rightarrow> js_error + audio_buffer" where
  "synth_chunk service voice style i chunk =
     (case service i (prompt style chunk) voice of
        ApiFailure e \<Rightarrow> Inl e
      | ApiResponse None \<Rightarrow> Inl (Error no_audio_message)
      | ApiResponse (Some base64Audio) \<Rightarrow>
          if base64Audio = [] then Inl (Error no_audio_message)
          else bindE (decodeBase64ToUint8Array base64Audio) (\<lambda>uint8Array.
                 decodePCMToAudioBuffer uint8Array 24000 1))"

text \<open>The events of iteration \<open>i\<close> of \<open>n\<close>: the progress report (when a callback is
  given) and the request.\<close>
definition step_events :: "bool \<Rightarrow> voice \<Rightarrow> js_string \<Rightarrow> nat \<Rightarrow> nat \<Rightarrow> js_string \<Rightarrow> event list" where
  "step_events onProgress voice style n i chunk =
     (if onProgress then [Progress (of_nat i / of_nat n * 100)] else []) @
     [Request (prompt style chunk) voice]"

text \<open>The loop over the chunks; \<open>audioBuffers\<close> accumulates the pushes, and the
  first exception ends the loop (the \<^verbatim>\<open>catch\<close> only logs and rethrows).\<close>
fun gen_loop ::
  "speech_service \<Rightarrow> voice \<Rightarrow> js_string \<Rightarrow> bool \<Rightarrow> nat \<Rightarrow> nat \<Rightarrow> js_string list \<Rightarrow>
   audio_buffer list \<Rightarrow> event list \<times> (js_error + audio_buffer list)" where
  "gen_loop service voice style onProgress n i [] audioBuffers = ([], Inr audioBuffers)"
| "gen_loop service voice style onProgress n i (chunk # rest) audioBuffers =
     (let evs = step_events onProgress voice style n i chunk
      in case synth_chunk service voice style i chunk of
           Inl e \<Rightarrow> (evs, Inl e)
         | Inr buffer \<Rightarrow>
             (let (evs', r) = gen_loop service voice style onProgress n (Suc i) rest
                                (audioBuffers @ [buffer])
              in (evs @ evs', r)))"

record speech_result =
  res_blob :: blob
  res_buffer :: audio_buffer

text \<open>\<open>None\<close> is non-termination (of the chunker); \<open>Some (trace, outcome)\<close> otherwise.
  The source's array \<^verbatim>\<open>chunks\<close> is \<open>textChunks\<close> here.\<close>
definition generateSpeech ::
  "speech_service \<Rightarrow> js_string \<Rightarrow> voice \<Rightarrow> js_string \<Rightarrow> bool \<Rightarrow>
   (event list \<times> (js_error + speech_result)) option" where
  "generateSpeech service text voice style onProgress =
     (case chunkText text 800 of
        None \<Rightarrow> None
      | Some textChunks \<Rightarrow>
          (let (evs, r) = gen_loop service voice style onProgress (length textChunks) 0 textChunks []
           in case r of
                Inl e \<Rightarrow> Some (evs, Inl e)
              | Inr audioBuffers \<Rightarrow>
                  (let evs' = evs @ (if onProgress then [Progress 100] else [])
                   in case bindE (mergeAudioBuffers audioBuffers) (\<lambda>mergedBuffer.
                             bindE (audioBufferToWav mergedBuffer) (\<lambda>wavBlob.
                               Inr \<lparr>res_blob = wavBlob, res_buffer = mergedBuffer\<rparr>)) of
                        Inl e \<Rightarrow> Some (evs', Inl e)
                      | Inr res \<Rightarrow> Some (evs', Inr res))))"

text \<open>The service object: the constructor reads the API key
  (\<^verbatim>\<open>process.env.API_KEY || ''\<close>) and opens an audio context at 24000 Hz.\<close>
record tts_service =
  ai_api_key :: js_string
  ctx_sample_rate :: nat

definition new_TTSService :: "js_string option \<Rightarrow> tts_service" where
  "new_TTSService apiKey =
     \<lparr>ai_api_key = (case apiKey of None \<Rightarrow> [] | Some k \<Rightarrow> k), ctx_sample_rate = 24000\<rparr>"

text \<open>Projections of a trace: the progress values reported, and the requests issued.\<close>
fun progress_of :: "event list \<Rightarrow> rat list" where
  "progress_of [] = []"
| "progress_of (Progress p # es) = p # progress_of es"
| "progress_of (Request q v # es) = progress_of es"

fun requests_of :: "event list \<Rightarrow> (js_string \<times> voice) list" where
  "requests_of [] = []"
| "requests_of (Progress p # es) = requests_of es"
| "requests_of (Request q v # es) = (q, v) # requests_of es"

section \<open>Lemmas\<close>

lemma gen_loop_ok:
  "list_all2 (\<lambda>(k, c) b. synth_chunk svc v st k c = Inr b) (zip [i..<i + length cs] cs) bs \<Longrightarrow>
   gen_loop svc v st rep n i cs acc =
     (concat (map2 (step_events rep v st n) [i..<i + length cs] cs), Inr (acc @ bs))"
proof (induction cs arbitrary: i acc bs)
  case Nil
  then show ?case by simp
next
  case (Cons c cs)
  have up: "[i..<i + length (c # cs)] = i # [Suc i..<Suc i + length cs]"
    by (simp add: upt_conv_Cons del: upt_Suc)
  from Cons.prems obtain b bs' where bs: "bs = b # bs'"
    and hd: "synth_chunk svc v st i c = Inr b"
    and tl: "list_all2 (\<lambda>(k, c) b. synth_chunk svc v st k c = Inr b) (zip [Suc i..<Suc i + length cs] cs) bs'"
    by (auto simp: upt_conv_Cons list_all2_Cons1 simp del: upt_Suc)
  from Cons.IH [OF tl] hd show ?case
    by (simp add: upt_conv_Cons bs del: upt_Suc)
qed

lemma gen_loop_fail:
  assumes "k < length cs" "\<forall>j < k. \<exists>b. synth_chunk svc v st (i + j) (cs ! j) = Inr b"
    and "synth_chunk svc v st (i + k) (cs ! k) = Inl e"
  shows "gen_loop svc v st rep n i cs acc =
           (concat (map2 (step_events rep v st n) [i..<i + Suc k] (take (Suc k) cs)), Inl e)"
  using assms
proof (induction cs arbitrary: i k acc)
  case Nil
  then show ?case by simp
next
  case (Cons c cs)
  show ?case
  proof (cases k)
    case 0
    then show ?thesis using Cons.prems(3) by simp
  next
    case (Suc k')
    from Cons.prems(2) Suc obtain b where hd: "synth_chunk svc v st i c = Inr b" by fastforce
    have IH: "gen_loop svc v st rep n (Suc i) cs (acc @ [b]) =
        (concat (map2 (step_events rep v st n) [Suc i..<Suc i + Suc k'] (take (Suc k') cs)), Inl e)"
      using Cons.prems Suc by (intro Cons.IH) auto
    have up: "[i..<i + Suc k] = i # [Suc i..<Suc i + Suc k']"
      using Suc by (simp add: upt_conv_Cons del: upt_Suc)
    show ?thesis using hd IH Suc by (simp add: upt_conv_Cons del: upt_Suc)
  qed
qed

lemma progress_of_append [simp]: "progress_of (xs @ ys) = progress_of xs @ progress_of ys"
  by (induction xs rule: progress_of.induct) simp_all

lemma requests_of_append [simp]: "requests_of (xs @ ys) = requests_of xs @ requests_of ys"
  by (induction xs rule: requests_of.induct) simp_all

lemma progress_of_steps:
  "progress_of (concat (map2 (step_events rep v st n) [i..<i + length xs] xs)) =
     (if rep then map (\<lambda>j. of_nat j / of_nat n * 100) [i..<i + length xs] else [])"
proof (induction xs arbitrary: i)
  case Nil
  then show ?case by simp
next
  case (Cons x xs)
  then show ?case
    using Cons.IH [of "Suc i"] by (simp add: step_events_def upt_conv_Cons del: upt_Suc)
qed

lemma requests_of_steps:
  "requests_of (concat (map2 (step_events rep v st n) [i..<i + length xs] xs)) =
     map (\<lambda>c. (prompt st c, v)) xs"
proof (induction xs arbitrary: i)
  case Nil
  then show ?case by simp
next
  case (Cons x xs)
  then show ?case
    using Cons.IH [of "Suc i"] by (simp add: step_events_def upt_conv_Cons del: upt_Suc)
qed

lemma synth_chunk_wf:
  "synth_chunk svc v st i c = Inr b \<Longrightarrow>
   wf_buffer b \<and> numberOfChannels b = 1 \<and> sampleRate b = 24000"
  by (auto simp: synth_chunk_def bindE_eq_Inr_conv dest: decodePCM_wf
           split: api_result.splits option.splits if_splits)

lemma gen_loop_rate:
  "snd (gen_loop svc v st rep n i cs acc) = Inr bs \<Longrightarrow> list_all (\<lambda>b. sampleRate b = 24000) acc \<Longrightarrow>
   list_all (\<lambda>b. sampleRate b = 24000) bs"
proof (induction cs arbitrary: i acc)
  case Nil
  then show ?case by simp
next
  case (Cons c cs)
  then show ?case
    by (auto simp: Let_def split_beta dest: synth_chunk_wf split: sum.splits)
qed

lemma chunkText_800: "\<exists>cs. chunkText text 800 = Some cs \<and> cs \<noteq> []"
proof -
  obtain w ws where "split_ws text = w # ws"
    using split_ws_nonempty [of "text"] by (cases "split_ws text") auto
  then show ?thesis by (simp add: chunkText_Some)
qed

lemma gen_loop_run:
  "\<exists>m. m \<le> length cs \<and> (cs \<noteq> [] \<longrightarrow> 0 < m) \<and>
     fst (gen_loop svc v st rep n i cs acc) =
       concat (map2 (step_events rep v st n) [i..<i + m] (take m cs)) \<and>
     (\<forall>bs. snd (gen_loop svc v st rep n i cs acc) = Inr bs \<longrightarrow> m = length cs)"
proof (induction cs arbitrary: i acc)
  case Nil
  then show ?case by simp
next
  case (Cons c cs)
  show ?case
  proof (cases "synth_chunk svc v st i c")
    case (Inl e)
    then show ?thesis
      by (intro exI [of _ 1]) (simp add: upt_conv_Cons del: upt_Suc)
  next
    case (Inr b)
    obtain m where m: "m \<le> length cs"
      "fst (gen_loop svc v st rep n (Suc i) cs (acc @ [b])) =
         concat (map2 (step_events rep v st n) [Suc i..<Suc i + m] (take m cs))"
      "\<forall>bs. snd (gen_loop svc v st rep n (Suc i) cs (acc @ [b])) = Inr bs \<longrightarrow> m = length cs"
      using Cons.IH by blast
    show ?thesis
      using Inr m
      by (intro exI [of _ "Suc m"])
         (auto simp: upt_conv_Cons split: prod.splits simp del: upt_Suc)
  qed
qed

lemma synth_results_wf:
  "list_all2 (\<lambda>(k, c) b. synth_chunk svc v st k c = Inr b) ps bs \<Longrightarrow>
   \<forall>b \<in> set bs. wf_buffer b \<and> numberOfChannels b = 1 \<and> sampleRate b = 24000"
  by (induction rule: list_all2_induct) (auto dest: synth_chunk_wf)

lemma merge_mono:
  assumes "bs \<noteq> []" "\<forall>b \<in> set bs. wf_buffer b \<and> numberOfChannels b = 1 \<and> sampleRate b = 24000"
    and "total_length bs < 2 ^ 32"
  shows "mergeAudioBuffers bs =
           Inr \<lparr>numberOfChannels = 1, ab_length = total_length bs, sampleRate = 24000,
                channel_data = [concat_channel bs 0]\<rparr>"
proof (cases "length bs = 1")
  case True
  then obtain b where bs: "bs = [b]" by (cases bs) auto
  then have "length (channel_data b) = 1" using assms(2) by (simp add: wf_buffer_def)
  then obtain ch where "channel_data b = [ch]" by (cases "channel_data b") auto
  then show ?thesis
    using assms(2) bs
    by (cases b) (simp add: total_length_def concat_channel_def)
next
  case False
  then have "2 \<le> length bs" using assms(1) by (cases bs) (auto simp: Suc_le_eq)
  moreover have "hd bs \<in> set bs" using assms(1) by simp
  ultimately show ?thesis
    using assms mergeAudioBuffers_eq [of bs] by simp
qed

lemma generateSpeech_loop:
  "chunkText text 800 = Some cs \<Longrightarrow>
   generateSpeech svc text v st rep =
     (let (evs, r) = gen_loop svc v st rep (length cs) 0 cs []
      in case r of
           Inl e \<Rightarrow> Some (evs, Inl e)
         | Inr bs \<Rightarrow>
             Some (evs @ (if rep then [Progress 100] else []),
                   bindE (mergeAudioBuffers bs) (\<lambda>m. bindE (audioBufferToWav m) (\<lambda>w.
                     Inr \<lparr>res_blob = w, res_buffer = m\<rparr>))))"
proof -
  assume ct: "chunkText text 800 = Some cs"
  obtain evs r where gl: "gen_loop svc v st rep (length cs) 0 cs [] = (evs, r)"
    by (cases "gen_loop svc v st rep (length cs) 0 cs []")
  show ?thesis
    by (cases r) (simp_all add: generateSpeech_def ct gl Let_def split: sum.split)
qed

lemma progress_ramp:
  assumes "m \<le> n"
  shows "sorted (map (\<lambda>j. of_nat j / of_nat n * 100 :: rat) [0..<m] @ [100]) \<and>
         list_all (\<lambda>p. 0 \<le> p \<and> p \<le> 100) (map (\<lambda>j. of_nat j / of_nat n * 100 :: rat) [0..<m])"
proof -
  let ?f = "\<lambda>j. of_nat j / of_nat n * 100 :: rat"
  have mono: "mono_on (set [0..<m]) ?f"
    by (intro mono_onI mult_right_mono divide_right_mono) simp_all
  have le: "?f j \<le> 100" if "j < m" for j
  proof -
    have "of_nat j * 100 \<le> 100 * (of_nat n :: rat)" using that assms by simp
    then show ?thesis by (cases "n = 0") (simp_all add: pos_divide_le_eq)
  qed
  show ?thesis
    using sorted_map_mono [OF sorted_upt mono] le
    by (auto simp: sorted_append list_all_iff)
qed

lemma generateSpeech_trace:
  "\<exists>cs m evs. chunkText text 800 = Some cs \<and> 0 < m \<and> m \<le> length cs \<and>
     evs = concat (map2 (step_events rep v st (length cs)) [0..<m] (take m cs)) \<and>
     ((\<exists>e. generateSpeech svc text v st rep = Some (evs, Inl e)) \<or>
      (m = length cs \<and> (\<exists>r. generateSpeech svc text v st rep =
             Some (evs @ (if rep then [Progress 100] else []), r))))"
proof -
  obtain cs where ct: "chunkText text 800 = Some cs" "cs \<noteq> []"
    using chunkText_800 by blast
  obtain m where m: "m \<le> length cs" "0 < m"
      "fst (gen_loop svc v st rep (length cs) 0 cs []) =
         concat (map2 (step_events rep v st (length cs)) [0..<0 + m] (take m cs))"
      "\<forall>bs. snd (gen_loop svc v st rep (length cs) 0 cs []) = Inr bs \<longrightarrow> m = length cs"
    using gen_loop_run [of cs svc v st rep "length cs" 0 "[]"] ct(2) by blast
  show ?thesis
    using ct m
    by (intro exI [of _ cs] exI [of _ m])
       (auto simp: generateSpeech_loop split: prod.splits sum.splits)
qed

lemma gen_loop_report:
  "requests_of (fst (gen_loop svc v st True n i cs acc)) =
     requests_of (fst (gen_loop svc v st False n i cs acc)) \<and>
   snd (gen_loop svc v st True n i cs acc) = snd (gen_loop svc v st False n i cs acc)"
  by (induction cs arbitrary: i acc)
     (auto simp: step_events_def Let_def split_beta split: sum.split)

lemma generateSpeech_progress_facts:
  assumes "generateSpeech svc text v st True = Some (tr, r)"
  shows "sorted (progress_of tr) \<and> list_all (\<lambda>p. 0 \<le> p \<and> p \<le> 100) (progress_of tr) \<and>
         hd (progress_of tr) = 0 \<and> (\<forall>x. r = Inr x \<longrightarrow> last (progress_of tr) = 100)"
proof -
  obtain cs m evs where run: "chunkText text 800 = Some cs" "0 < m" "m \<le> length cs"
      "evs = concat (map2 (step_events True v st (length cs)) [0..<m] (take m cs))"
      "(\<exists>e. generateSpeech svc text v st True = Some (evs, Inl e)) \<or>
       (m = length cs \<and> (\<exists>r. generateSpeech svc text v st True = Some (evs @ [Progress 100], r)))"
    using generateSpeech_trace [of "text" True v st svc] by (simp only: if_True) blast
  let ?f = "\<lambda>j. of_nat j / of_nat (length cs) * 100 :: rat"
  have P: "progress_of evs = map ?f [0..<m]"
    using run(3,4) progress_of_steps [of True v st "length cs" 0 "take m cs"] by (simp add: min_absorb1)
  have hd: "hd (map ?f [0..<m]) = 0" using run(2) by (simp add: hd_map)
  have ramp: "sorted (map ?f [0..<m] @ [100]) \<and> list_all (\<lambda>p. 0 \<le> p \<and> p \<le> 100) (map ?f [0..<m])"
    by (rule progress_ramp [OF run(3)])
  from run(5) show ?thesis
  proof
    assume "\<exists>e. generateSpeech svc text v st True = Some (evs, Inl e)"
    then show ?thesis using assms P hd ramp by (auto simp: sorted_append)
  next
    assume "m = length cs \<and> (\<exists>r. generateSpeech svc text v st True = Some (evs @ [Progress 100], r))"
    then show ?thesis using assms P hd ramp run(2) by auto
  qed
qed

lemma audioBufferToWav_type: "audioBufferToWav b = Inr w \<Longrightarrow> blob_type w = js ''audio/wav''"
  by (cases "numberOfChannels b = 0")
     (auto simp: audioBufferToWav_eq, simp add: audioBufferToWav_def getChannelData_def)

text \<open>What the controller relies on: the run settles, issues a request, reports
  progress within 0..100, and a result is a WAV blob.\<close>
lemma generateSpeech_shape:
  "\<exists>tr out. generateSpeech svc text v st True = Some (tr, out) \<and> requests_of tr \<noteq> [] \<and>
     list_all (\<lambda>p. 0 \<le> p \<and> p \<le> 100) (progress_of tr) \<and>
     (\<forall>res. out = Inr res \<longrightarrow> blob_type (res_blob res) = js ''audio/wav'')"
proof -
  obtain cs m evs where run: "chunkText text 800 = Some cs" "0 < m" "m \<le> length cs"
      "evs = concat (map2 (step_events True v st (length cs)) [0..<m] (take m cs))"
      "(\<exists>e. generateSpeech svc text v st True = Some (evs, Inl e)) \<or>
       (m = length cs \<and> (\<exists>r. generateSpeech svc text v st True = Some (evs @ [Progress 100], r)))"
    using generateSpeech_trace [of "text" True v st svc] by (simp only: if_True) blast
  have "take m cs \<noteq> []" using run(2,3) by auto
  then have ne: "requests_of evs \<noteq> []"
    using run(3,4) requests_of_steps [of True v st "length cs" 0 "take m cs"] by (simp add: min_absorb1)
  obtain tr out where g: "generateSpeech svc text v st True = Some (tr, out)" "requests_of tr \<noteq> []"
    using run(5) ne by auto
  have "list_all (\<lambda>p. 0 \<le> p \<and> p \<le> 100) (progress_of tr)"
    using generateSpeech_progress_facts [OF g(1)] by simp
  moreover have "blob_type (res_blob res) = js ''audio/wav''" if "out = Inr res" for res
    using g(1) run(1) that
    by (auto simp: generateSpeech_loop bindE_eq_Inr_conv audioBufferToWav_type
             split: prod.splits sum.splits)
  ultimately show ?thesis using g by auto
qed

lemma merged_mono_wf:
  assumes "bs \<noteq> []" "\<forall>b \<in> set bs. wf_buffer b \<and> numberOfChannels b = 1 \<and> sampleRate b = 24000"
  shows "wf_buffer \<lparr>numberOfChannels = 1, ab_length = total_length bs, sampleRate = 24000,
                     channel_data = [concat_channel bs 0]\<rparr>"
proof -
  obtain b where b: "b \<in> set bs" using assms(1) by (cases bs) auto
  then have "ab_length b \<le> total_length bs"
    unfolding total_length_def by (intro member_le_sum_list) auto
  moreover have "0 < ab_length b" using assms(2) b by (simp add: wf_buffer_def)
  moreover have "length (concat_channel bs 0) = total_length bs"
    using assms(2) by (intro length_concat_channel) simp
  ultimately show ?thesis by (simp add: wf_buffer_def)
qed

text \<open>The whole run when every chunk is synthesised: the trace, the merged buffer and
  its WAV image, in closed form.\<close>
lemma generateSpeech_ok:
  assumes "chunkText text 800 = Some cs"
    and "list_all2 (\<lambda>(j, c) b. synth_chunk svc v st j c = Inr b) (zip [0..<length cs] cs) bs"
    and "total_length bs < 2 ^ 32"
  shows "generateSpeech svc text v st rep =
           Some (concat (map2 (step_events rep v st (length cs)) [0..<length cs] cs) @
                   (if rep then [Progress 100] else []),
                 Inr \<lparr>res_blob = \<lparr>blob_bytes = wav_bytes 1 24000 (concat_channel bs 0),
                                  blob_type = js ''audio/wav''\<rparr>,
                      res_buffer = \<lparr>numberOfChannels = 1, ab_length = total_length bs,
                                    sampleRate = 24000, channel_data = [concat_channel bs 0]\<rparr>\<rparr>)"
proof -
  have loop: "gen_loop svc v st rep (length cs) 0 cs [] =
      (concat (map2 (step_events rep v st (length cs)) [0..<0 + length cs] cs), Inr ([] @ bs))"
    using assms(2) by (intro gen_loop_ok) simp
  have ne: "cs \<noteq> []" using assms(1) chunkText_800 [of "text"] by auto
  have len: "length bs = length cs" using assms(2) by (auto dest: list_all2_lengthD)
  have merge: "mergeAudioBuffers bs =
      Inr \<lparr>numberOfChannels = 1, ab_length = total_length bs, sampleRate = 24000,
           channel_data = [concat_channel bs 0]\<rparr>"
    using ne len synth_results_wf [OF assms(2)] assms(3) by (intro merge_mono) auto
  show ?thesis
    using assms(1) loop merge by (simp add: generateSpeech_loop audioBufferToWav_eq)
qed

text \<open>A concrete run: the text \<open>hello world\<close> and a service answering every
  request with the base64 image of the PCM bytes \<open>[0, 0, 0, 0x40]\<close>.\<close>
lemma ct_hello: "chunkText (js ''hello world'') 800 = Some [js ''hello world'']"
  by (simp add: chunkText_Some split_ws_def js_def js_space_def)

lemma b64_hello: "decodeBase64ToUint8Array (js ''AAAAQA=='') = Inr [0, 0, 0, 64]"
  by code_simp

lemma pcm_hello: "decodePCMToAudioBuffer [0, 0, 0, 64] 24000 1 =
   Inr \<lparr>numberOfChannels = 1, ab_length = 2, sampleRate = 24000, channel_data = [[0, 1 / 2]]\<rparr>"
  using decodePCM_eq [of "[0, 0, 0, 64]" 1 24000]
  by (simp add: nth_le_int16s int16_of_le_def pcm_value_def)

lemma synth_hello: "synth_chunk (\<lambda>i p v. ApiResponse (Some (js ''AAAAQA==''))) KORE (js ''calm'') 0 (js ''hello world'') =
   Inr \<lparr>numberOfChannels = 1, ab_length = 2, sampleRate = 24000, channel_data = [[0, 1/2]]\<rparr>"
proof -
  have "js ''AAAAQA=='' \<noteq> []" by (simp add: js_def)
  then show ?thesis using pcm_hello by (simp add: synth_chunk_def b64_hello)
qed

lemma hello_run:
  "generateSpeech (\<lambda>i p v. ApiResponse (Some (js ''AAAAQA==''))) (js ''hello world'') KORE (js ''calm'') True =
     Some ([Progress 0, Request (prompt (js ''calm'') (js ''hello world'')) KORE, Progress 100],
           Inr \<lparr>res_blob = \<lparr>blob_bytes = wav_bytes 1 24000 [0, 1 / 2], blob_type = js ''audio/wav''\<rparr>,
                res_buffer = \<lparr>numberOfChannels = 1, ab_length = 2, sampleRate = 24000,
                              channel_data = [[0, 1 / 2]]\<rparr>\<rparr>)"
  using generateSpeech_ok [OF ct_hello, of _ KORE "js ''calm''"
      "[\<lparr>numberOfChannels = 1, ab_length = 2, sampleRate = 24000, channel_data = [[0, 1 / 2]]\<rparr>]" True]
        synth_hello
  by (simp add: total_length_def concat_channel_def step_events_def)

section \<open>Properties of the orchestrator\<close>

text \<open>
  C13. Abort: when chunk \<open>k\<close> is the first whose synthesis fails (the service
  rejects, returns no audio, or the payload does not decode), the run ends with that
  error, unchanged, and no result; exactly the chunks \<open>0..k\<close> were requested, in
  order, with the styled prompt and the voice; no later chunk is requested.
\<close>
theorem generateSpeech_abort:
  assumes "chunkText text 800 = Some cs" "k < length cs"
    and "\<forall>j < k. \<exists>b. synth_chunk svc v st j (cs ! j) = Inr b"
    and "synth_chunk svc v st k (cs ! k) = Inl e"
  shows "\<exists>tr. generateSpeech svc text v st rep = Some (tr, Inl e) \<and>
             requests_of tr = map (\<lambda>c. (prompt st c, v)) (take (Suc k) cs)"
proof -
  have "gen_loop svc v st rep (length cs) 0 cs [] =
          (concat (map2 (step_events rep v st (length cs)) [0..<0 + Suc k] (take (Suc k) cs)), Inl e)"
    using assms(2-4) by (intro gen_loop_fail) simp_all
  moreover have "length (take (Suc k) cs) = Suc k" using assms(2) by simp
  ultimately show ?thesis
    using assms(1) requests_of_steps [of rep v st "length cs" 0 "take (Suc k) cs"]
    by (simp add: generateSpeech_loop)
qed


theorem generateSpeech_abort_witness:
  "chunkText (js ''hello world'') 800 = Some [js ''hello world''] \<and>
   synth_chunk (\<lambda>i p v. ApiResponse None) KORE (js ''calm'') 0 (js ''hello world'') =
     Inl (Error no_audio_message) \<and>
   (\<exists>tr. generateSpeech (\<lambda>i p v. ApiResponse None) (js ''hello world'') KORE (js ''calm'') True =
           Some (tr, Inl (Error no_audio_message)) \<and>
         requests_of tr = [(prompt (js ''calm'') (js ''hello world''), KORE)])"
proof -
  have s: "synth_chunk (\<lambda>i p v. ApiResponse None) KORE (js ''calm'') 0 (js ''hello world'') =
             Inl (Error no_audio_message)"
    by (simp add: synth_chunk_def)
  show ?thesis
    using generateSpeech_abort [OF ct_hello, of 0 "\<lambda>i p v. ApiResponse None" KORE "js ''calm''"
        "Error no_audio_message" True] ct_hello s
    by simp
qed

text \<open>
  C14. Success, end to end: when every chunk is synthesised and the total length fits
  the 32-bit frame count, the run returns the WAV blob of the concatenation, in chunk
  order, of the decoded mono 24 kHz buffers, together with that merged buffer, which
  is well formed; every chunk was requested once, in order. In particular the merge
  never fails on the buffers the loop produces (they all have one channel).
\<close>
theorem generateSpeech_success:
  assumes "chunkText text 800 = Some cs"
    and "list_all2 (\<lambda>(j, c) b. synth_chunk svc v st j c = Inr b) (zip [0..<length cs] cs) bs"
    and "total_length bs < 2 ^ 32"
  shows "\<exists>tr m. generateSpeech svc text v st rep =
             Some (tr, Inr \<lparr>res_blob = \<lparr>blob_bytes = wav_bytes 1 24000 (concat_channel bs 0),
                                        blob_type = js ''audio/wav''\<rparr>,
                           res_buffer = m\<rparr>) \<and>
           requests_of tr = map (\<lambda>c. (prompt st c, v)) cs \<and>
           wf_buffer m \<and> sampleRate m = 24000 \<and> channel_data m = [concat_channel bs 0]"
proof -
  have ne: "bs \<noteq> []"
    using assms(1,2) chunkText_800 [of "text"] by (auto dest: list_all2_lengthD)
  show ?thesis
    using generateSpeech_ok [OF assms] requests_of_steps [of rep v st "length cs" 0 cs]
          merged_mono_wf [OF ne synth_results_wf [OF assms(2)]]
    by simp
qed


theorem generateSpeech_success_witness:
  "chunkText (js ''hello world'') 800 = Some [js ''hello world''] \<and>
   synth_chunk (\<lambda>i p v. ApiResponse (Some (js ''AAAAQA==''))) KORE (js ''calm'') 0 (js ''hello world'') =
     Inr \<lparr>numberOfChannels = 1, ab_length = 2, sampleRate = 24000, channel_data = [[0, 1/2]]\<rparr> \<and>
   (\<exists>tr m. generateSpeech (\<lambda>i p v. ApiResponse (Some (js ''AAAAQA=='')))
              (js ''hello world'') KORE (js ''calm'') True =
            Some (tr, Inr \<lparr>res_blob = \<lparr>blob_bytes = wav_bytes 1 24000 [0, 1 / 2],
                                       blob_type = js ''audio/wav''\<rparr>, res_buffer = m\<rparr>) \<and>
            requests_of tr = [(prompt (js ''calm'') (js ''hello world''), KORE)] \<and> wf_buffer m)"
  using generateSpeech_success [OF ct_hello, of "\<lambda>i p v. ApiResponse (Some (js ''AAAAQA==''))" KORE "js ''calm''"
      "[\<lparr>numberOfChannels = 1, ab_length = 2, sampleRate = 24000, channel_data = [[0, 1 / 2]]\<rparr>]" True]
        ct_hello synth_hello
  by (simp add: total_length_def concat_channel_def) blast

text \<open>
  C15. Blank text: for a text of white space only (the empty text included) and
  every service, \<open>generateSpeech\<close> still requests one chunk, the empty string or a
  single space, instead of short-circuiting without a call as the spec requires.
\<close>
theorem generateSpeech_blank:
  assumes "list_all js_space text"
  shows "\<exists>tr r. generateSpeech svc text v st rep = Some (tr, r) \<and>
           requests_of tr = [(prompt st (if text = [] then [] else js '' ''), v)]"
proof -
  let ?c = "if text = [] then [] else js '' ''"
  obtain cs m evs where run: "chunkText text 800 = Some cs" "0 < m" "m \<le> length cs"
      "evs = concat (map2 (step_events rep v st (length cs)) [0..<m] (take m cs))"
      "(\<exists>e. generateSpeech svc text v st rep = Some (evs, Inl e)) \<or>
       (m = length cs \<and> (\<exists>r. generateSpeech svc text v st rep =
          Some (evs @ (if rep then [Progress 100] else []), r)))"
    using generateSpeech_trace [of "text" rep v st svc] by blast
  have cs: "cs = [?c]" using run(1) chunkText_blank_800 [OF assms] by simp
  then have m: "m = 1" using run(2,3) by simp
  have "requests_of evs = [(prompt st ?c, v)]"
    using requests_of_steps [of rep v st 1 0 "[?c]"] run(4) cs m by simp
  then show ?thesis using run(5) by auto
qed

theorem generateSpeech_blank_witness:
  "list_all js_space (js ''  '') \<and>
   (\<exists>tr r. generateSpeech (\<lambda>i p v. ApiResponse None) (js ''  '') KORE (js ''calm'') True = Some (tr, r) \<and>
      requests_of tr = [(prompt (js ''calm'') (js '' ''), KORE)])"
proof -
  have b: "list_all js_space (js ''  '')" by (simp add: js_def js_space_def)
  show ?thesis using generateSpeech_blank [OF b, of "\<lambda>i p v. ApiResponse None" KORE "js ''calm''" True] b
    by (simp add: js_def)
qed

text \<open>
  C16. Termination: with the chunk size 800 the chunker's loop ends, and so does the
  whole orchestration, for every text, service and callback.
\<close>
theorem generateSpeech_terminates: "\<exists>tr r. generateSpeech svc text v st rep = Some (tr, r)"
  using chunkText_800 [of "text"]
  by (auto simp: generateSpeech_loop split: prod.splits sum.splits)

text \<open>
  C17. Progress: with a callback, the reported values start at 0, never decrease and
  stay within 0..100; a successful run reports 100 last.
\<close>
theorem generateSpeech_progress:
  assumes "generateSpeech svc text v st True = Some (tr, r)"
  shows "sorted (progress_of tr) \<and> list_all (\<lambda>p. 0 \<le> p \<and> p \<le> 100) (progress_of tr) \<and>
         hd (progress_of tr) = 0 \<and> (\<forall>x. r = Inr x \<longrightarrow> last (progress_of tr) = 100)"
  by (rule generateSpeech_progress_facts [OF assms])

theorem generateSpeech_progress_witness:
  "generateSpeech (\<lambda>i p v. ApiResponse (Some (js ''AAAAQA==''))) (js ''hello world'') KORE (js ''calm'') True =
     Some ([Progress 0, Request (prompt (js ''calm'') (js ''hello world'')) KORE, Progress 100],
           Inr \<lparr>res_blob = \<lparr>blob_bytes = wav_bytes 1 24000 [0, 1 / 2], blob_type = js ''audio/wav''\<rparr>,
                res_buffer = \<lparr>numberOfChannels = 1, ab_length = 2, sampleRate = 24000,
                              channel_data = [[0, 1 / 2]]\<rparr>\<rparr>) \<and>
   progress_of [Progress 0, Request (prompt (js ''calm'') (js ''hello world'')) KORE, Progress 100] = [0, 100]"
  using generateSpeech_progress [OF hello_run] hello_run by simp
text \<open>
  C18. The callback is advisory: with or without it, the same requests are issued in
  the same order and the outcome is the same.
\<close>
theorem generateSpeech_progress_advisory:
  "map_option (\<lambda>(tr, r). (requests_of tr, r)) (generateSpeech svc text v st True) =
   map_option (\<lambda>(tr, r). (requests_of tr, r)) (generateSpeech svc text v st False)"
proof -
  obtain cs where ct: "chunkText text 800 = Some cs" using chunkText_800 by blast
  obtain evs r where t: "gen_loop svc v st True (length cs) 0 cs [] = (evs, r)"
    by (cases "gen_loop svc v st True (length cs) 0 cs []")
  obtain evs' r' where f: "gen_loop svc v st False (length cs) 0 cs [] = (evs', r')"
    by (cases "gen_loop svc v st False (length cs) 0 cs []")
  have "requests_of evs = requests_of evs'" "r = r'"
    using gen_loop_report [of svc v st "length cs" 0 cs "[]"] t f by simp_all
  then show ?thesis
    using ct t f by (cases r) (simp_all add: generateSpeech_loop split: sum.split)
qed


text \<open>
  C32. Every buffer the loop decodes, and the merged result, has the sample rate of
  the service's audio context, so the clip plays at its recorded speed.
\<close>
theorem decoded_rate_matches_context:
  "(synth_chunk svc v st i c = Inr b \<longrightarrow> sampleRate b = ctx_sample_rate (new_TTSService key)) \<and>
   (generateSpeech svc text v st rep = Some (tr, Inr res) \<longrightarrow>
      sampleRate (res_buffer res) = ctx_sample_rate (new_TTSService key))"
proof -
  have "sampleRate (res_buffer res) = 24000" if g: "generateSpeech svc text v st rep = Some (tr, Inr res)"
  proof -
    obtain cs where ct: "chunkText text 800 = Some cs" using chunkText_800 by blast
    obtain evs bs m w where gl: "gen_loop svc v st rep (length cs) 0 cs [] = (evs, Inr bs)"
      and mg: "mergeAudioBuffers bs = Inr m" and wav: "audioBufferToWav m = Inr w"
      and rb: "res_buffer res = m"
      using g ct by (auto simp: generateSpeech_loop bindE_eq_Inr_conv split: prod.splits sum.splits)
    have "list_all (\<lambda>b. sampleRate b = 24000) bs"
      using gen_loop_rate [of svc v st rep "length cs" 0 cs "[]"] gl by simp
    then show ?thesis using merge_rate [OF mg] rb by (cases bs) simp_all
  qed
  then show ?thesis
    using synth_chunk_wf [of svc v st i c b] by (auto simp: new_TTSService_def)
qed

theorem decoded_rate_matches_context_witness:
  "synth_chunk (\<lambda>i p v. ApiResponse (Some (js ''AAAAQA==''))) KORE (js ''calm'') 0 (js ''hello world'') =
     Inr \<lparr>numberOfChannels = 1, ab_length = 2, sampleRate = 24000, channel_data = [[0, 1/2]]\<rparr> \<and>
   sampleRate \<lparr>numberOfChannels = 1, ab_length = 2, sampleRate = 24000, channel_data = [[0 :: sample, 1/2]]\<rparr> =
     ctx_sample_rate (new_TTSService None)"
  using decoded_rate_matches_context [of "\<lambda>i p v. ApiResponse (Some (js ''AAAAQA==''))" KORE "js ''calm''" 0
      "js ''hello world''" "\<lparr>numberOfChannels = 1, ab_length = 2, sampleRate = 24000, channel_data = [[0, 1/2]]\<rparr>" None]
      synth_hello
  by simp

end
