(* ===== verification/App.thy ===== *)
theory App
  imports TtsService
begin

text \<open>
  The generation controller of \<^verbatim>\<open>src/App.tsx\<close>: the component state (the text,
  the voice, the style, the history, \<open>ttsState\<close>), the word counter and its
  \<^verbatim>\<open>MAX_WORDS\<close> guard, the Generate button and \<open>handleGenerate\<close>, and the asynchronous
  continuations it leaves behind: the progress callbacks and the completion of each
  generation, and the timer that clears the status after a success. The event loop is
  an explicit sequence of events; each event is one macrotask of the browser, and
  everything a macrotask does synchronously happens within one step.
\<close>

section \<open>Constants and platform functions\<close>

definition MAX_WORDS :: nat where
  "MAX_WORDS = 10000"

text \<open>Declared as the words per API call; no code reads it.\<close>
definition CHUNK_SIZE :: nat where
  "CHUNK_SIZE = 1000"

text \<open>\<^verbatim>\<open>String.prototype.trim\<close>: white space and line terminators, the class of
  \<^verbatim>\<open>\s\<close>, removed at both ends.\<close>
definition js_trim :: "js_string \<Rightarrow> js_string" where
  "js_trim s = rev (dropWhile js_space (rev (dropWhile js_space s)))"

text \<open>\<^verbatim>\<open>Math.round\<close> on the (exact) progress values.\<close>
definition js_round :: "rat \<Rightarrow> int" where
  "js_round x = floor (x + 1 / 2)"

text \<open>The decimal image of a non-negative integral number (\<^verbatim>\<open>Number::toString\<close>).\<close>
fun nat_to_js :: "nat \<Rightarrow> js_string" where
  "nat_to_js n = (if n < 10 then [word_of_nat (48 + n)]
                  else nat_to_js (n div 10) @ [word_of_nat (48 + n mod 10)])"

declare nat_to_js.simps [simp del]

section \<open>State (\<^verbatim>\<open>src/types.ts\<close>)\<close>

datatype tts_status = StIdle | StProcessing | StSuccess | StError

record tts_state =
  status :: tts_status
  progress :: rat
  message :: js_string

text \<open>\<^verbatim>\<open>GeneratedSpeech\<close>, without the random id, the timestamp and the object URL.\<close>
record generated_speech =
  gs_text :: js_string
  gs_voice :: voice
  gs_duration :: rat
  gs_blob :: blob

text \<open>A generation in flight: the values its closure captured, the part of the
  orchestrator's trace still to run (it resumes after each response), and its outcome
  (\<open>None\<close> if it never settles).\<close>
record pending_run =
  pr_text :: js_string
  pr_voice :: voice
  pr_trace :: "event list"
  pr_outcome :: "(js_error + speech_result) option"

record app =
  app_text :: js_string
  selectedVoice :: voice
  styleInstruction :: js_string
  history :: "generated_speech list"
  ttsState :: tts_state
  pending :: "pending_run list"
  timers :: nat

definition init_app :: app where
  "init_app =
     \<lparr>app_text = [], selectedVoice = ZEPHYR,
      styleInstruction = js ''Speak clearly with a natural pace and professional tone.'',
      history = [], ttsState = \<lparr>status = StIdle, progress = 0, message = []\<rparr>,
      pending = [], timers = 0\<rparr>"

section \<open>The voice picker (\<^verbatim>\<open>src/constants.tsx\<close>)\<close>

datatype gender = Male | Female | Neutral

record voice_option =
  vo_id :: voice
  vo_name :: js_string
  vo_description :: js_string
  vo_gender :: gender

definition VOICE_OPTIONS :: "voice_option list" where
  "VOICE_OPTIONS =
     [\<lparr>vo_id = ZEPHYR, vo_name = js ''Zephyr'', vo_description = js ''Warm, helpful, and natural tone.'',
       vo_gender = Neutral\<rparr>,
      \<lparr>vo_id = KORE, vo_name = js ''Kore'', vo_description = js ''Professional, articulate, and clear.'',
       vo_gender = Female\<rparr>,
      \<lparr>vo_id = PUCK, vo_name = js ''Puck'', vo_description = js ''Energetic, youthful, and friendly.'',
       vo_gender = Male\<rparr>,
      \<lparr>vo_id = CHARON, vo_name = js ''Charon'', vo_description = js ''Deep, resonant, and authoritative.'',
       vo_gender = Male\<rparr>,
      \<lparr>vo_id = FENRIR, vo_name = js ''Fenrir'', vo_description = js ''Sophisticated, calm, and rhythmic.'',
       vo_gender = Neutral\<rparr>]"

section \<open>The controller\<close>

definition word_count :: "js_string \<Rightarrow> nat" where
  "word_count t = (if js_trim t = [] then 0 else length (split_ws (js_trim t)))"

definition is_too_long :: "js_string \<Rightarrow> bool" where
  "is_too_long t \<longleftrightarrow> MAX_WORDS < word_count t"

definition button_disabled :: "app \<Rightarrow> bool" where
  "button_disabled s \<longleftrightarrow>
     status (ttsState s) = StProcessing \<or> js_trim (app_text s) = [] \<or> is_too_long (app_text s)"

text \<open>The updater passed to \<open>setTtsState\<close> by the progress callback.\<close>
definition on_progress :: "rat \<Rightarrow> tts_state \<Rightarrow> tts_state" where
  "on_progress p prev =
     prev\<lparr>progress := p,
          message := js ''Synthesizing audio: '' @ nat_to_js (nat (js_round p)) @ js ''%''\<rparr>"

text \<open>Run the orchestrator's trace up to its next request: the progress reports are
  applied; \<open>Some rest\<close> is the trace after the request (the run awaits the response),
  \<open>None\<close> that no request is left (the run settles).\<close>
fun run_segment :: "tts_state \<Rightarrow> event list \<Rightarrow> tts_state \<times> event list option" where
  "run_segment st [] = (st, None)"
| "run_segment st (Progress p # es) = run_segment (on_progress p st) es"
| "run_segment st (Request q v # es) = (st, Some es)"

definition default_error :: js_string where
  "default_error = js ''Failed to generate speech. Please check your API key and connection.''"

definition too_long_message :: js_string where
  "too_long_message = js ''Text is too long (Max '' @ nat_to_js MAX_WORDS @ js '' words).''"

text \<open>\<^verbatim>\<open>err.message || default\<close>; the messages of the platform's exceptions are
  the parameter \<open>msg\<close>.\<close>
definition error_text :: "(js_error \<Rightarrow> js_string) \<Rightarrow> js_error \<Rightarrow> js_string" where
  "error_text msg e = (let m = (case e of Error m \<Rightarrow> m | _ \<Rightarrow> msg e) in if m = [] then default_error else m)"

definition new_speech :: "js_string \<Rightarrow> voice \<Rightarrow> speech_result \<Rightarrow> generated_speech" where
  "new_speech t v res =
     \<lparr>gs_text = take 100 t @ (if 100 < length t then js ''...'' else []), gs_voice = v,
      gs_duration = duration (res_buffer res), gs_blob = res_blob res\<rparr>"

text \<open>The continuation of \<open>handleGenerate\<close> after \<open>await generateSpeech\<close>.\<close>
definition finish_run ::
  "(js_error \<Rightarrow> js_string) \<Rightarrow> pending_run \<Rightarrow> js_error + speech_result \<Rightarrow> app \<Rightarrow> app" where
  "finish_run msg r out s =
     (case out of
        Inr res \<Rightarrow>
          s\<lparr>history := new_speech (pr_text r) (pr_voice r) res # history s,
            ttsState := \<lparr>status = StSuccess, progress = 100,
                         message = js ''Speech generated successfully!''\<rparr>,
            timers := Suc (timers s)\<rparr>
      | Inl e \<Rightarrow> s\<lparr>ttsState := \<lparr>status = StError, progress = 0, message = error_text msg e\<rparr>\<rparr>)"

text \<open>Resume a run after a response: run its trace to the next request, or settle it.\<close>
definition resume_run :: "(js_error \<Rightarrow> js_string) \<Rightarrow> pending_run \<Rightarrow> app \<Rightarrow> app" where
  "resume_run msg r s =
     (let (st, rest) = run_segment (ttsState s) (pr_trace r)
      in case rest of
           Some tr \<Rightarrow> s\<lparr>ttsState := st, pending := pending s @ [r\<lparr>pr_trace := tr\<rparr>]\<rparr>
         | None \<Rightarrow>
             (case pr_outcome r of
                None \<Rightarrow> s\<lparr>ttsState := st\<rparr>
              | Some out \<Rightarrow> finish_run msg r out (s\<lparr>ttsState := st\<rparr>)))"

definition handleGenerate :: "(js_error \<Rightarrow> js_string) \<Rightarrow> speech_service \<Rightarrow> app \<Rightarrow> app" where
  "handleGenerate msg svc s =
     (if js_trim (app_text s) = [] then s
      else if is_too_long (app_text s) then
        s\<lparr>ttsState := \<lparr>status = StError, progress = 0, message = too_long_message\<rparr>\<rparr>
      else
        let s1 = s\<lparr>ttsState := \<lparr>status = StProcessing, progress = 0,
                                  message = js ''Initializing voice synthesizer...''\<rparr>\<rparr>;
            r = (case generateSpeech svc (app_text s) (selectedVoice s) (styleInstruction s) True of
                   None \<Rightarrow> \<lparr>pr_text = app_text s, pr_voice = selectedVoice s, pr_trace = [],
                            pr_outcome = None\<rparr>
                 | Some (tr, out) \<Rightarrow> \<lparr>pr_text = app_text s, pr_voice = selectedVoice s,
                                      pr_trace = tr, pr_outcome = Some out\<rparr>)
        in resume_run msg r s1)"

datatype app_event =
    SetText js_string
  | SelectVoice voice
  | SetStyle js_string
  | Click speech_service
  | Respond nat
  | FireTimer

fun app_step :: "(js_error \<Rightarrow> js_string) \<Rightarrow> app \<Rightarrow> app_event \<Rightarrow> app" where
  "app_step msg s (SetText t) = s\<lparr>app_text := t\<rparr>"
| "app_step msg s (SelectVoice v) = s\<lparr>selectedVoice := v\<rparr>"
| "app_step msg s (SetStyle t) = s\<lparr>styleInstruction := t\<rparr>"
| "app_step msg s (Click svc) = (if button_disabled s then s else handleGenerate msg svc s)"
| "app_step msg s (Respond i) =
     (if i < length (pending s)
      then resume_run msg (pending s ! i) (s\<lparr>pending := take i (pending s) @ drop (Suc i) (pending s)\<rparr>)
      else s)"
| "app_step msg s FireTimer =
     (if timers s = 0 then s
      else s\<lparr>timers := timers s - 1,
             ttsState := (ttsState s)\<lparr>status := StIdle, progress := 0\<rparr>\<rparr>)"

fun app_run :: "(js_error \<Rightarrow> js_string) \<Rightarrow> app \<Rightarrow> app_event list \<Rightarrow> app" where
  "app_run msg s [] = s"
| "app_run msg s (e # es) = app_run msg (app_step msg s e) es"

inductive app_reach :: "(js_error \<Rightarrow> js_string) \<Rightarrow> app \<Rightarrow> bool" for msg where
  init: "app_reach msg init_app"
| step: "app_reach msg s \<Longrightarrow> app_reach msg (app_step msg s e)"

section \<open>The invariant of the controller\<close>

definition pct :: "rat \<Rightarrow> bool" where
  "pct p \<longleftrightarrow> 0 \<le> p \<and> p \<le> 100"

text \<open>A generation in flight reports percentages, settles, was started on a text of
  1 to \<^verbatim>\<open>MAX_WORDS\<close> words, and a result it delivers is a WAV blob.\<close>
definition run_ok :: "pending_run \<Rightarrow> bool" where
  "run_ok r \<longleftrightarrow>
     list_all pct (progress_of (pr_trace r)) \<and> pr_outcome r \<noteq> None \<and>
     words_of (pr_text r) \<noteq> [] \<and> length (words_of (pr_text r)) \<le> MAX_WORDS \<and>
     (case pr_outcome r of Some (Inr res) \<Rightarrow> blob_type (res_blob res) = js ''audio/wav'' | _ \<Rightarrow> True)"

definition app_inv :: "app \<Rightarrow> bool" where
  "app_inv s \<longleftrightarrow>
     pct (progress (ttsState s)) \<and>
     (status (ttsState s) = StProcessing \<longrightarrow> pending s \<noteq> []) \<and>
     list_all run_ok (pending s) \<and>
     list_all (\<lambda>h. blob_type (gs_blob h) = js ''audio/wav'') (history s)"


text \<open>At most one generation in flight, and then the status shows processing.\<close>
definition single_flight :: "app \<Rightarrow> bool" where
  "single_flight s \<longleftrightarrow>
     length (pending s) \<le> 1 \<and> (pending s \<noteq> [] \<longrightarrow> status (ttsState s) = StProcessing)"

text \<open>The service of the end-to-end scenario: every request is answered with the base64
  image of the PCM bytes \<open>[0, 0, 0, 0x40]\<close>.\<close>
definition hello_service :: speech_service where
  "hello_service = (\<lambda>i p v. ApiResponse (Some (js ''AAAAQA=='')))"

definition hello_result :: speech_result where
  "hello_result =
     \<lparr>res_blob = \<lparr>blob_bytes = wav_bytes 1 24000 [0, 1 / 2], blob_type = js ''audio/wav''\<rparr>,
      res_buffer = \<lparr>numberOfChannels = 1, ab_length = 2, sampleRate = 24000,
                    channel_data = [[0, 1 / 2]]\<rparr>\<rparr>"

text \<open>An event adds at most one clip to the history, at its front.\<close>
definition grows_by_one :: "app \<Rightarrow> app \<Rightarrow> bool" where
  "grows_by_one s s' \<longleftrightarrow> (\<exists>pre. history s' = pre @ history s \<and> length pre \<le> 1)"


section \<open>Lemmas\<close>

lemma app_reach_run: "app_reach msg s \<Longrightarrow> app_reach msg (app_run msg s es)"
  by (induction es arbitrary: s) (auto intro: app_reach.step)


lemma filter_split_trailing:
  "list_all js_space sp \<Longrightarrow>
   filter (\<lambda>w. w \<noteq> []) (split_acc w (s @ sp)) = filter (\<lambda>w. w \<noteq> []) (split_acc w s)"
proof (induction w s rule: split_acc.induct)
  case (1 w)
  then show ?case by (cases sp) (simp_all add: dropWhile_all)
next
  case (2 w c cs)
  show ?case
  proof (cases "list_all js_space cs")
    case True
    then show ?thesis using 2 by (simp add: dropWhile_all)
  next
    case False
    then have "dropWhile js_space (cs @ sp) = dropWhile js_space cs @ sp"
      by (auto simp: dropWhile_append list_all_iff)
    then show ?thesis using 2 by simp
  qed
qed

lemma last_dropWhile: "dropWhile P xs \<noteq> [] \<Longrightarrow> last (dropWhile P xs) = last xs"
  by (metis last_append takeWhile_dropWhile_id)

lemma split_acc_no_empty:
  "w \<noteq> [] \<or> (s \<noteq> [] \<and> \<not> js_space (hd s)) \<Longrightarrow> (s \<noteq> [] \<longrightarrow> \<not> js_space (last s)) \<Longrightarrow>
   list_all (\<lambda>x. x \<noteq> []) (split_acc w s)"
proof (induction w s rule: split_acc.induct)
  case (1 w)
  then show ?case by simp
next
  case (2 w c cs)
  show ?case
  proof (cases "js_space c")
    case True
    then have w: "w \<noteq> []" and cs: "cs \<noteq> []" "\<not> js_space (last cs)"
      using "2.prems" by (auto split: if_splits)
    then have d: "dropWhile js_space cs \<noteq> []"
      by (metis dropWhile_eq_Nil_conv last_in_set)
    have "list_all (\<lambda>x. x \<noteq> []) (split_acc [] (dropWhile js_space cs))"
      using d cs(2) True by (intro "2.IH"(1)) (simp_all add: hd_dropWhile last_dropWhile)
    then show ?thesis using True w by simp
  next
    case False
    have "list_all (\<lambda>x. x \<noteq> []) (split_acc (c # w) cs)"
      using False "2.prems" by (intro "2.IH"(2)) (auto split: if_splits)
    then show ?thesis using False by simp
  qed
qed

lemma words_of_trim: "words_of (js_trim t) = words_of t"
proof -
  let ?u = "dropWhile js_space t"
  let ?sp = "rev (takeWhile js_space (rev ?u))"
  have u: "?u = js_trim t @ ?sp"
    unfolding js_trim_def by (metis rev_append rev_rev_ident takeWhile_dropWhile_id)
  have sp: "list_all js_space ?sp"
    by (auto simp: list_all_iff dest: set_takeWhileD)
  have "words_of t = filter (\<lambda>w. w \<noteq> []) (split_acc [] ?u)"
    by (simp add: words_of_def split_ws_def filter_split_dropWhile)
  also have "\<dots> = filter (\<lambda>w. w \<noteq> []) (split_acc [] (js_trim t))"
    by (subst u) (rule filter_split_trailing [OF sp])
  finally show ?thesis by (simp add: words_of_def split_ws_def)
qed

lemma trim_ends:
  assumes "js_trim t \<noteq> []"
  shows "\<not> js_space (hd (js_trim t)) \<and> \<not> js_space (last (js_trim t))"
proof -
  let ?d = "dropWhile js_space (rev (dropWhile js_space t))"
  have d: "?d \<noteq> []" using assms by (simp add: js_trim_def)
  have "last ?d = last (rev (dropWhile js_space t))" by (rule last_dropWhile [OF d])
  moreover have "dropWhile js_space t \<noteq> []" using d by (metis dropWhile.simps(1) rev.simps(1))
  ultimately have "hd (js_trim t) = hd (dropWhile js_space t)"
    using d by (simp add: js_trim_def hd_rev last_rev)
  moreover have "\<not> js_space (hd (dropWhile js_space t))"
    using \<open>dropWhile js_space t \<noteq> []\<close> by (simp add: hd_dropWhile)
  moreover have "\<not> js_space (hd ?d)" using d by (simp add: hd_dropWhile)
  ultimately show ?thesis using d by (simp add: js_trim_def last_rev)
qed

lemma word_count_eq: "word_count t = length (words_of t)"
proof (cases "js_trim t = []")
  case True
  then show ?thesis
    using words_of_trim [of t] by (simp add: word_count_def words_of_def split_ws_def)
next
  case False
  have "list_all (\<lambda>x. x \<noteq> []) (split_acc [] (js_trim t))"
    using False trim_ends [OF False] by (intro split_acc_no_empty) simp_all
  then have "words_of (js_trim t) = split_ws (js_trim t)"
    by (simp add: words_of_def split_ws_def list_all_iff)
  then show ?thesis
    using False words_of_trim [of t] by (simp add: word_count_def)
qed

lemma trim_empty_iff: "js_trim t = [] \<longleftrightarrow> words_of t = []"
proof -
  have "js_trim t \<noteq> [] \<Longrightarrow> split_ws (js_trim t) \<noteq> []" by (rule split_ws_nonempty)
  then show ?thesis using word_count_eq [of t] by (cases "js_trim t = []") (auto simp: word_count_def)
qed

lemma too_long_iff: "is_too_long t \<longleftrightarrow> MAX_WORDS < length (words_of t)"
  by (simp add: is_too_long_def word_count_eq)

lemma words_of_repeat:
  "words_of (concat (replicate n (js ''a ''))) = replicate n (js ''a'')"
proof -
  have a: "\<not> js_space 97" by (simp add: js_space_def)
  have "filter (\<lambda>w. w \<noteq> []) (split_acc [] (concat (replicate n [97, 32]))) = replicate n [97]"
  proof (induction n)
    case 0
    then show ?case by simp
  next
    case (Suc n)
    let ?R = "concat (replicate n [97 :: 16 word, 32])"
    have "dropWhile js_space ?R = ?R" using a by (cases n) simp_all
    then show ?case using Suc a by simp
  qed
  then show ?thesis by (simp add: words_of_def split_ws_def js_def)
qed


lemma run_segment_status [simp]: "status (fst (run_segment st tr)) = status st"
  by (induction st tr rule: run_segment.induct) (simp_all add: on_progress_def)

lemma run_segment_pct:
  "list_all pct (progress_of tr) \<Longrightarrow> pct (progress st) \<Longrightarrow> pct (progress (fst (run_segment st tr)))"
  by (induction st tr rule: run_segment.induct) (simp_all add: on_progress_def)

lemma run_segment_rest: "run_segment st tr = (st', Some rest) \<Longrightarrow> \<exists>pre. tr = pre @ rest"
proof (induction st tr rule: run_segment.induct)
  case (2 st p es)
  then obtain pre where "es = pre @ rest" by auto
  then show ?case by (metis append_Cons)
qed auto

lemma finish_run_inv:
  assumes "run_ok r" "pr_outcome r = Some out" "list_all run_ok (pending s)"
    and "list_all (\<lambda>h. blob_type (gs_blob h) = js ''audio/wav'') (history s)"
  shows "app_inv (finish_run msg r out s)"
  using assms by (auto simp: finish_run_def app_inv_def pct_def run_ok_def new_speech_def split: sum.splits)

lemma resume_run_inv:
  assumes "run_ok r" "pct (progress (ttsState s))" "list_all run_ok (pending s)"
    and "list_all (\<lambda>h. blob_type (gs_blob h) = js ''audio/wav'') (history s)"
  shows "app_inv (resume_run msg r s)"
proof (cases "run_segment (ttsState s) (pr_trace r)")
  case (Pair st rest)
  have st: "pct (progress st)" "status st = status (ttsState s)"
    using run_segment_pct [of "pr_trace r" "ttsState s"] run_segment_status [of "ttsState s" "pr_trace r"]
      assms(1,2) Pair by (simp_all add: run_ok_def)
  show ?thesis
  proof (cases rest)
    case None
    obtain out where out: "pr_outcome r = Some out" using assms(1) by (auto simp: run_ok_def)
    show ?thesis
      using finish_run_inv [OF assms(1) out, of "s\<lparr>ttsState := st\<rparr>"] assms(3,4) Pair None out
      by (simp add: resume_run_def)
  next
    case (Some tr)
    obtain pre where "pr_trace r = pre @ tr" using run_segment_rest Pair Some by blast
    then have "run_ok (r\<lparr>pr_trace := tr\<rparr>)" using assms(1) by (simp add: run_ok_def)
    then show ?thesis
      using assms(3,4) st Pair Some by (simp add: resume_run_def app_inv_def)
  qed
qed

lemma handleGenerate_inv:
  assumes "app_inv s"
  shows "app_inv (handleGenerate msg svc s)"
proof -
  obtain tr out where g: "generateSpeech svc (app_text s) (selectedVoice s) (styleInstruction s) True =
        Some (tr, out)" "requests_of tr \<noteq> []" "list_all (\<lambda>p. 0 \<le> p \<and> p \<le> 100) (progress_of tr)"
      "\<forall>res. out = Inr res \<longrightarrow> blob_type (res_blob res) = js ''audio/wav''"
    using generateSpeech_shape [of svc "app_text s" "selectedVoice s" "styleInstruction s"]
    by blast
  let ?r = "\<lparr>pr_text = app_text s, pr_voice = selectedVoice s, pr_trace = tr, pr_outcome = Some out\<rparr>"
  let ?s1 = "s\<lparr>ttsState := \<lparr>status = StProcessing, progress = 0,
                              message = js ''Initializing voice synthesizer...''\<rparr>\<rparr>"
  have ok: "js_trim (app_text s) \<noteq> [] \<Longrightarrow> \<not> is_too_long (app_text s) \<Longrightarrow> run_ok ?r"
    using g(3,4) by (auto simp: run_ok_def pct_def list_all_iff trim_empty_iff too_long_iff split: sum.split)
  have "js_trim (app_text s) \<noteq> [] \<Longrightarrow> \<not> is_too_long (app_text s) \<Longrightarrow> app_inv (resume_run msg ?r ?s1)"
    using assms ok by (intro resume_run_inv) (simp_all add: app_inv_def pct_def)
  then show ?thesis
    using assms g(1) by (auto simp: handleGenerate_def app_inv_def pct_def Let_def)
qed

lemma app_step_inv:
  assumes inv: "app_inv s"
  shows "app_inv (app_step msg s e)"
proof (cases e)
  case (Click svc)
  then show ?thesis using handleGenerate_inv [OF inv, of msg svc] inv by simp
next
  case (Respond i)
  show ?thesis
  proof (cases "i < length (pending s)")
    case True
    let ?s' = "s\<lparr>pending := take i (pending s) @ drop (Suc i) (pending s)\<rparr>"
    have "run_ok (pending s ! i)" using inv True by (simp add: app_inv_def list_all_length)
    moreover have "list_all run_ok (pending ?s')"
      using inv by (auto simp: app_inv_def list_all_iff dest: in_set_takeD in_set_dropD)
    ultimately have "app_inv (resume_run msg (pending s ! i) ?s')"
      using inv by (intro resume_run_inv) (simp_all add: app_inv_def)
    then show ?thesis using Respond True by simp
  next
    case False
    then show ?thesis using Respond inv by simp
  qed
qed (use inv in \<open>auto simp: app_inv_def pct_def\<close>)


lemma hello_words: "words_of (js ''hello world'') = [js ''hello'', js ''world'']"
  by (simp add: words_of_def split_ws_def js_def js_space_def)

lemma hello_trim: "js_trim (js ''hello world'') \<noteq> []"
  by (simp add: trim_empty_iff hello_words)

lemma hello_short: "\<not> is_too_long (js ''hello world'')"
  by (simp add: too_long_iff hello_words MAX_WORDS_def)


lemma run_segment_None: "snd (run_segment st tr) = None \<longleftrightarrow> requests_of tr = []"
  by (induction st tr rule: run_segment.induct) simp_all

lemma run_segment_Some:
  "run_segment st tr = (st', Some rest) \<Longrightarrow> length (requests_of tr) = Suc (length (requests_of rest))"
  by (induction st tr rule: run_segment.induct) auto

lemma respond_single:
  "pending s = [r] \<Longrightarrow> pr_outcome r = Some out \<Longrightarrow> length (requests_of (pr_trace r)) = n \<Longrightarrow>
   pending (app_run msg s (replicate (Suc n) (Respond 0))) = [] \<and>
   status (ttsState (app_run msg s (replicate (Suc n) (Respond 0)))) =
     (case out of Inl e \<Rightarrow> StError | Inr res \<Rightarrow> StSuccess)"
proof (induction n arbitrary: s r)
  case 0
  obtain st where "run_segment (ttsState s) (pr_trace r) = (st, None)"
    using run_segment_None [of "ttsState s" "pr_trace r"] "0.prems"(3)
    by (cases "run_segment (ttsState s) (pr_trace r)") simp
  then show ?case
    using "0.prems" by (simp add: resume_run_def finish_run_def split: sum.split)
next
  case (Suc n)
  obtain st rest where seg: "run_segment (ttsState s) (pr_trace r) = (st, Some rest)"
    using run_segment_None [of "ttsState s" "pr_trace r"] Suc.prems(3)
    by (cases "run_segment (ttsState s) (pr_trace r)") auto
  let ?s = "app_step msg s (Respond 0)"
  have s: "pending ?s = [r\<lparr>pr_trace := rest\<rparr>]"
    using Suc.prems(1) seg by (simp add: resume_run_def)
  have "length (requests_of rest) = n" using run_segment_Some [OF seg] Suc.prems(3) by simp
  then have "pending (app_run msg ?s (replicate (Suc n) (Respond 0))) = [] \<and>
      status (ttsState (app_run msg ?s (replicate (Suc n) (Respond 0)))) =
        (case out of Inl e \<Rightarrow> StError | Inr res \<Rightarrow> StSuccess)"
    using Suc.prems(2) by (intro Suc.IH [OF s]) simp_all
  then show ?case by simp
qed

lemma app_inv_reach: "app_reach msg s \<Longrightarrow> app_inv s"
proof (induction rule: app_reach.induct)
  case init
  then show ?case by (simp add: init_app_def app_inv_def pct_def)
next
  case (step s e)
  then show ?case using app_step_inv by blast
qed

lemma split_acc_empties:
  "length (filter (\<lambda>x. x = []) (split_acc w s)) \<le>
     1 + (if w = [] \<and> s \<noteq> [] \<and> js_space (hd s) then 1 else 0)"
proof (induction w s rule: split_acc.induct)
  case (1 w)
  then show ?case by simp
next
  case (2 w c cs)
  show ?case
  proof (cases "js_space c")
    case True
    have "length (filter (\<lambda>x. x = []) (split_acc [] (dropWhile js_space cs))) \<le> 1"
      using "2.IH"(1) [OF True] by (auto simp: hd_dropWhile dropWhile_eq_Nil_conv split: if_splits)
    then show ?thesis using True by simp
  next
    case False
    then show ?thesis using "2.IH"(2) [OF False] by simp
  qed
qed

lemma length_split_ws_words: "length (split_ws t) \<le> length (words_of t) + 2"
proof -
  have "length (split_ws t) =
          length (words_of t) + length (filter (\<lambda>x. x = []) (split_ws t))"
    using sum_length_filter_compl [of "\<lambda>x. x = []" "split_ws t"]
    by (simp add: words_of_def)
  moreover have "length (filter (\<lambda>x. x = []) (split_ws t)) \<le> 2"
    using split_acc_empties [of "[]" t] by (simp add: split_ws_def split: if_splits)
  ultimately show ?thesis by simp
qed


lemma finish_run_grows: "grows_by_one s (finish_run msg r out s)"
  by (cases out) (auto simp: grows_by_one_def finish_run_def intro: exI [of _ "[]"] exI [of _ "[x]" for x])

lemma grows_ttsState [simp]: "grows_by_one (s\<lparr>ttsState := st\<rparr>) s' = grows_by_one s s'"
  by (simp add: grows_by_one_def)

lemma grows_refl [simp]: "grows_by_one s (s\<lparr>ttsState := st\<rparr>)" "grows_by_one s s"
  by (auto simp: grows_by_one_def)

lemma resume_run_grows: "grows_by_one s (resume_run msg r s)"
proof -
  obtain st rest where seg: "run_segment (ttsState s) (pr_trace r) = (st, rest)" by fastforce
  show ?thesis
  proof (cases rest)
    case None
    then show ?thesis
      using seg finish_run_grows [of "s\<lparr>ttsState := st\<rparr>" msg r]
      by (auto simp: resume_run_def split: option.splits)
  next
    case (Some tr)
    then show ?thesis using seg by (simp add: resume_run_def grows_by_one_def)
  qed
qed

lemma handleGenerate_grows: "grows_by_one s (handleGenerate msg svc s)"
proof -
  let ?s1 = "s\<lparr>ttsState := \<lparr>status = StProcessing, progress = 0,
                               message = js ''Initializing voice synthesizer...''\<rparr>\<rparr>"
  have "grows_by_one s (resume_run msg r ?s1)" for r
    using resume_run_grows [of ?s1 msg r] by simp
  then show ?thesis by (simp add: handleGenerate_def Let_def)
qed

lemma app_step_grows: "grows_by_one s (app_step msg s e)"
proof (cases e)
  case (Respond i)
  have "grows_by_one (s\<lparr>pending := take i (pending s) @ drop (Suc i) (pending s)\<rparr>)
          (resume_run msg (pending s ! i) (s\<lparr>pending := take i (pending s) @ drop (Suc i) (pending s)\<rparr>))"
    by (rule resume_run_grows)
  then show ?thesis using Respond by (simp add: grows_by_one_def)
qed (simp_all add: handleGenerate_grows, simp_all add: grows_by_one_def)


lemma finish_run_pending [simp]: "pending (finish_run msg r out s) = pending s"
  by (simp add: finish_run_def split: sum.split)

lemma resume_run_single:
  assumes "pending s = []" "status (ttsState s) = StProcessing"
  shows "single_flight (resume_run msg r s)"
proof (cases "run_segment (ttsState s) (pr_trace r)")
  case (Pair st rest)
  have "status st = StProcessing"
    using run_segment_status [of "ttsState s" "pr_trace r"] assms(2) Pair by simp
  then show ?thesis
    using assms(1) Pair
    by (auto simp: resume_run_def single_flight_def split: option.split)
qed

lemma handleGenerate_single:
  assumes "pending s = []"
  shows "single_flight (handleGenerate msg svc s)"
proof -
  let ?s1 = "s\<lparr>ttsState := \<lparr>status = StProcessing, progress = 0,
                              message = js ''Initializing voice synthesizer...''\<rparr>\<rparr>"
  have "single_flight (resume_run msg r ?s1)" for r
    using assms by (intro resume_run_single) simp_all
  then show ?thesis
    using assms by (simp add: handleGenerate_def single_flight_def Let_def)
qed

lemma app_step_single:
  assumes "single_flight s" "e \<noteq> FireTimer"
  shows "single_flight (app_step msg s e)"
proof (cases e)
  case (Click svc)
  then show ?thesis
    using assms handleGenerate_single [of s msg svc]
    by (auto simp: button_disabled_def single_flight_def)
next
  case (Respond i)
  show ?thesis
  proof (cases "i < length (pending s)")
    case True
    then have "i = 0" "length (pending s) = 1" using assms(1) by (simp_all add: single_flight_def)
    then have "single_flight (resume_run msg (pending s ! i)
                 (s\<lparr>pending := take i (pending s) @ drop (Suc i) (pending s)\<rparr>))"
      using assms(1) by (intro resume_run_single) (auto simp: single_flight_def)
    then show ?thesis using Respond True by simp
  next
    case False
    then show ?thesis using Respond assms(1) by simp
  qed
qed (use assms in \<open>simp_all add: single_flight_def\<close>)

lemma app_run_single:
  "single_flight s \<Longrightarrow> FireTimer \<notin> set es \<Longrightarrow> single_flight (app_run msg s es)"
proof (induction es arbitrary: s)
  case (Cons e es)
  have "single_flight (app_step msg s e)" using Cons.prems by (intro app_step_single) auto
  then show ?case using Cons.IH Cons.prems(2) by simp
qed simp

section \<open>Properties of the controller\<close>

text \<open>
  C21. The word counter of the form (trim, then split on white space, 0 for a blank
  text) counts exactly the words of the text, the maximal runs of non-white-space
  code units the chunker works on.
\<close>
theorem word_count_words: "word_count t = length (words_of t)"
  by (rule word_count_eq)


text \<open>
  C22. A text of more than \<^verbatim>\<open>MAX_WORDS\<close> words: \<open>handleGenerate\<close> sets the
  error status with the too-long message and starts no generation (no request is
  made); but a click on the Generate button does nothing at all, since the button is
  disabled, so the too-long error is never shown.
\<close>
theorem handleGenerate_too_long:
  assumes "MAX_WORDS < length (words_of (app_text s))"
  shows "handleGenerate msg svc s =
           s\<lparr>ttsState := \<lparr>status = StError, progress = 0, message = too_long_message\<rparr>\<rparr> \<and>
         app_step msg s (Click svc) = s"
proof -
  have "words_of (app_text s) \<noteq> []" using assms by auto
  then show ?thesis
    using assms by (simp add: handleGenerate_def button_disabled_def trim_empty_iff too_long_iff)
qed

theorem handleGenerate_too_long_witness:
  "MAX_WORDS < length (words_of (app_text (init_app\<lparr>app_text := concat (replicate 10001 (js ''a ''))\<rparr>))) \<and>
   handleGenerate (\<lambda>e. []) (\<lambda>i p v. ApiResponse None)
     (init_app\<lparr>app_text := concat (replicate 10001 (js ''a ''))\<rparr>) =
   init_app\<lparr>app_text := concat (replicate 10001 (js ''a '')),
            ttsState := \<lparr>status = StError, progress = 0, message = too_long_message\<rparr>\<rparr>"
  using handleGenerate_too_long [of "init_app\<lparr>app_text := concat (replicate 10001 (js ''a ''))\<rparr>"
      "\<lambda>e. []" "\<lambda>i p v. ApiResponse None"]
  by (simp add: words_of_repeat MAX_WORDS_def)

text \<open>
  C23. In every reachable state of the controller the displayed progress is a
  percentage, a processing status has a generation in flight, every generation in
  flight was started on a text of 1 to \<^verbatim>\<open>MAX_WORDS\<close> words and will settle, and
  every history entry holds a WAV blob.
\<close>
theorem app_reach_inv: "app_reach msg s \<Longrightarrow> app_inv s"
  by (rule app_inv_reach)


theorem app_reach_inv_witness:
  "app_reach (\<lambda>e. []) (app_run (\<lambda>e. []) init_app [SetText (js ''hello world''), Click hello_service]) \<and>
   app_inv (app_run (\<lambda>e. []) init_app [SetText (js ''hello world''), Click hello_service])"
proof -
  have r: "app_reach (\<lambda>e. []) (app_run (\<lambda>e. []) init_app [SetText (js ''hello world''), Click hello_service])"
    by (intro app_reach_run app_reach.init)
  then show ?thesis using app_reach_inv [OF r] by simp
qed

text \<open>
  C24. Without the success timer there is never more than one generation in flight,
  and while one is, the status shows processing: the Generate button is disabled
  while processing, a response resumes the one run, and settling leaves none. Only
  the timer, which resets the status to idle without looking at the runs in flight,
  can re-enable the button during a generation.
\<close>
theorem single_flight_without_timer:
  assumes "FireTimer \<notin> set es"
  shows "length (pending (app_run msg init_app es)) \<le> 1 \<and>
         (pending (app_run msg init_app es) \<noteq> [] \<longrightarrow>
            status (ttsState (app_run msg init_app es)) = StProcessing)"
proof -
  have "single_flight init_app" by (simp add: single_flight_def init_app_def)
  then show ?thesis using app_run_single [OF _ assms] by (simp add: single_flight_def)
qed

theorem single_flight_without_timer_witness:
  "FireTimer \<notin> set [SetText (js ''hello world''), Click hello_service, Click hello_service] \<and>
   length (pending (app_run (\<lambda>e. []) init_app
     [SetText (js ''hello world''), Click hello_service, Click hello_service])) \<le> 1"
  using single_flight_without_timer
          [of "[SetText (js ''hello world''), Click hello_service, Click hello_service]" "\<lambda>e. []"]
  by simp

text \<open>
  C25. A generation in flight alone settles: after one response per request it still
  awaits and one more, it is gone and the status is success or error.
\<close>
theorem generation_settles:
  assumes "app_reach msg s" "pending s = [r]"
  shows "let s' = app_run msg s (replicate (Suc (length (requests_of (pr_trace r)))) (Respond 0))
         in pending s' = [] \<and> (status (ttsState s') = StSuccess \<or> status (ttsState s') = StError)"
proof -
  have "app_inv s" using assms(1) by (rule app_inv_reach)
  then obtain out where "pr_outcome r = Some out" using assms(2) by (auto simp: app_inv_def run_ok_def)
  then show ?thesis
    using respond_single [OF assms(2), of out "length (requests_of (pr_trace r))" msg]
    by (simp split: sum.split_asm)
qed


theorem generation_settles_witness:
  "app_reach (\<lambda>e. []) (app_run (\<lambda>e. []) init_app
     [SetText (js ''hello world''), SelectVoice KORE, SetStyle (js ''calm''), Click hello_service]) \<and>
   pending (app_run (\<lambda>e. []) init_app
     [SetText (js ''hello world''), SelectVoice KORE, SetStyle (js ''calm''), Click hello_service]) =
     [\<lparr>pr_text = js ''hello world'', pr_voice = KORE, pr_trace = [Progress 100],
       pr_outcome = Some (Inr hello_result)\<rparr>] \<and>
   (let s' = app_run (\<lambda>e. []) (app_run (\<lambda>e. []) init_app
               [SetText (js ''hello world''), SelectVoice KORE, SetStyle (js ''calm''), Click hello_service])
               [Respond 0]
    in pending s' = [] \<and> (status (ttsState s') = StSuccess \<or> status (ttsState s') = StError))"
proof -
  let ?s = "app_run (\<lambda>e. []) init_app
     [SetText (js ''hello world''), SelectVoice KORE, SetStyle (js ''calm''), Click hello_service]"
  let ?r = "\<lparr>pr_text = js ''hello world'', pr_voice = KORE, pr_trace = [Progress 100],
              pr_outcome = Some (Inr hello_result)\<rparr>"
  have r: "app_reach (\<lambda>e. []) ?s" by (intro app_reach_run app_reach.init)
  have p: "pending ?s = [?r]"
    using hello_run hello_trim hello_short
    by (simp add: init_app_def button_disabled_def handleGenerate_def hello_service_def
                  resume_run_def on_progress_def hello_result_def)
  show ?thesis using generation_settles [OF r p] r p by simp
qed


text \<open>
  C26. A generation on a text of at most \<^verbatim>\<open>MAX_WORDS\<close> words, the only texts the
  Generate button submits, makes at most 13 requests to the service: the split gives
  at most two empty pieces beyond the words, and 10002 pieces make 13 chunks of 800.
\<close>
theorem generation_request_bound:
  assumes "length (words_of text) \<le> MAX_WORDS"
    and "generateSpeech svc text v st rep = Some (tr, out)"
  shows "length (requests_of tr) \<le> 13"
proof -
  obtain cs m evs where run: "chunkText text 800 = Some cs" "0 < m" "m \<le> length cs"
      "evs = concat (map2 (step_events rep v st (length cs)) [0..<m] (take m cs))"
      "(\<exists>e. generateSpeech svc text v st rep = Some (evs, Inl e)) \<or>
       (m = length cs \<and> (\<exists>r. generateSpeech svc text v st rep =
          Some (evs @ (if rep then [Progress 100] else []), r)))"
    using generateSpeech_trace [of "text" rep v st svc] by blast
  have req: "length (requests_of tr) = m"
    using run(3-5) assms(2) requests_of_steps [of rep v st "length cs" 0 "take m cs"]
    by (auto simp: min_absorb1)
  have "length cs = (length (split_ws text) + 799) div 800"
    using run(1) length_chunks [of 800 "split_ws text"] by (auto simp: chunkText_Some)
  moreover have "length (split_ws text) \<le> 10002"
    using length_split_ws_words [of "text"] assms(1) by (simp add: MAX_WORDS_def)
  ultimately have "length cs \<le> 13" by simp
  then show ?thesis using req run(3) by simp
qed

theorem generation_request_bound_witness:
  "length (words_of (js ''hello world'')) \<le> MAX_WORDS \<and>
   generateSpeech hello_service (js ''hello world'') KORE (js ''calm'') True =
     Some ([Progress 0, Request (prompt (js ''calm'') (js ''hello world'')) KORE, Progress 100],
           Inr hello_result) \<and>
   length (requests_of [Progress 0, Request (prompt (js ''calm'') (js ''hello world'')) KORE,
                        Progress 100]) \<le> 13"
proof -
  have g: "generateSpeech hello_service (js ''hello world'') KORE (js ''calm'') True =
     Some ([Progress 0, Request (prompt (js ''calm'') (js ''hello world'')) KORE, Progress 100],
           Inr hello_result)"
    using hello_run by (simp add: hello_service_def hello_result_def)
  have w: "length (words_of (js ''hello world'')) \<le> MAX_WORDS"
    by (simp add: hello_words MAX_WORDS_def)
  show ?thesis using generation_request_bound [OF w g] w g by simp
qed

text \<open>
  C27. The history only grows, at its front: over any sequence of events the old
  clips stay, in order, behind at most one new clip per event.
\<close>
theorem history_only_grows:
  "\<exists>pre. history (app_run msg s es) = pre @ history s \<and> length pre \<le> length es"
proof (induction es arbitrary: s)
  case Nil
  then show ?case by simp
next
  case (Cons e es)
  obtain p1 where p1: "history (app_step msg s e) = p1 @ history s" "length p1 \<le> 1"
    using app_step_grows [of s msg e] by (auto simp: grows_by_one_def)
  obtain p2 where p2: "history (app_run msg (app_step msg s e) es) = p2 @ history (app_step msg s e)"
      "length p2 \<le> length es"
    using Cons.IH by blast
  show ?case using p1 p2 by (intro exI [of _ "p2 @ p1"]) simp
qed


end
