(* ===== verification/View.thy ===== *)
theory View
  imports App
begin

text \<open>
  What the App component renders (\<^verbatim>\<open>src/App.tsx\<close>, the JSX after
  \<open>return\<close>), as a function of its state: the word counter and its bar, the voice
  buttons, the Generate button, the status panel with its progress bar, and the
  library of generated clips; and the file name \<open>downloadSpeech\<close> gives a clip.
  Markup, classes and icons are reduced to the choices the code makes between them.
\<close>

section \<open>The rendered view\<close>

datatype tone = ToneError | ToneSuccess | ToneInfo

record status_panel =
  sp_tone :: tone
  sp_message :: js_string
  sp_bar :: "rat option"

record clip_view =
  cv_voice :: js_string
  cv_text :: js_string

record app_view =
  counter_text :: js_string
  counter_alert :: bool
  word_bar :: rat
  voice_buttons :: "(js_string \<times> bool) list"
  generate_enabled :: bool
  generate_label :: js_string
  spinner :: bool
  panel :: "status_panel option"
  clip_count :: nat
  clips :: "clip_view list"
  no_audio :: bool

text \<open>\<^verbatim>\<open>{wordCount} / {MAX_WORDS} words\<close>.\<close>
definition counter_of :: "js_string \<Rightarrow> js_string" where
  "counter_of t = nat_to_js (word_count t) @ js '' / '' @ nat_to_js MAX_WORDS @ js '' words''"

text \<open>The status message block: absent when idle, coloured by the status, with a
  progress bar while processing.\<close>
definition panel_of :: "tts_state \<Rightarrow> status_panel option" where
  "panel_of st =
     (if status st = StIdle then None
      else Some \<lparr>sp_tone = (if status st = StError then ToneError
                            else if status st = StSuccess then ToneSuccess else ToneInfo),
                 sp_message = message st,
                 sp_bar = (if status st = StProcessing then Some (progress st) else None)\<rparr>)"

text \<open>One entry of the library (its time of day is not modelled).\<close>
definition clip_of :: "generated_speech \<Rightarrow> clip_view" where
  "clip_of h = \<lparr>cv_voice = voice_name (gs_voice h), cv_text = gs_text h\<rparr>"

definition render :: "app \<Rightarrow> app_view" where
  "render s =
     \<lparr>counter_text = counter_of (app_text s),
      counter_alert = is_too_long (app_text s),
      word_bar = of_nat (word_count (app_text s)) / of_nat MAX_WORDS * 100,
      voice_buttons = map (\<lambda>v. (vo_name v, selectedVoice s = vo_id v)) VOICE_OPTIONS,
      generate_enabled = \<not> button_disabled s,
      generate_label = (if status (ttsState s) = StProcessing then js ''Synthesizing...''
                        else js ''Generate Speech''),
      spinner = (status (ttsState s) = StProcessing),
      panel = panel_of (ttsState s),
      clip_count = length (history s),
      clips = map clip_of (history s),
      no_audio = (history s = [])\<rparr>"

text \<open>\<open>downloadSpeech\<close>: the file name, for the date string \<open>d\<close> that
  \<^verbatim>\<open>toLocaleDateString\<close> gives the clip's timestamp.\<close>
definition download_name :: "generated_speech \<Rightarrow> js_string \<Rightarrow> js_string" where
  "download_name h d = js ''speech-'' @ voice_name (gs_voice h) @ js ''-'' @ d @ js ''.wav''"

section \<open>Lemmas\<close>

lemma no_dash_split:
  "45 \<notin> set a \<Longrightarrow> 45 \<notin> set b \<Longrightarrow> a @ 45 # x = b @ 45 # y \<Longrightarrow> a = b \<and> x = y"
proof (induction a arbitrary: b)
  case Nil
  then show ?case by (cases b) auto
next
  case (Cons c a)
  then show ?case by (cases b) auto
qed

lemma voice_name_inj: "voice_name v = voice_name w \<longleftrightarrow> v = w"
  by (cases v; cases w) (simp_all add: js_def)

lemma voice_name_no_dash: "45 \<notin> set (voice_name v)"
  by (cases v) (simp_all add: js_def)

section \<open>Properties of the view\<close>

text \<open>
  C28. In every reachable state the status panel is shown exactly when the status is
  not idle; a progress bar is shown exactly while the spinner is, with a width in
  0..100%; and while the spinner turns, the button is disabled and a generation is in
  flight.
\<close>
theorem render_reachable:
  assumes "app_reach msg s"
  shows "(panel (render s) = None \<longleftrightarrow> status (ttsState s) = StIdle) \<and>
         (\<forall>p w. panel (render s) = Some p \<longrightarrow> sp_bar p = Some w \<longrightarrow> 0 \<le> w \<and> w \<le> 100) \<and>
         (spinner (render s) \<longleftrightarrow> (\<exists>p w. panel (render s) = Some p \<and> sp_bar p = Some w)) \<and>
         (spinner (render s) \<longrightarrow> \<not> generate_enabled (render s) \<and> pending s \<noteq> [])"
  using app_inv_reach [OF assms]
  by (auto simp: render_def panel_of_def app_inv_def pct_def button_disabled_def)

theorem render_reachable_witness:
  "app_reach (\<lambda>e. []) (app_run (\<lambda>e. []) init_app
     [SetText (js ''hello world''), SelectVoice KORE, SetStyle (js ''calm''), Click hello_service]) \<and>
   panel (render (app_run (\<lambda>e. []) init_app
     [SetText (js ''hello world''), SelectVoice KORE, SetStyle (js ''calm''), Click hello_service])) =
     Some \<lparr>sp_tone = ToneInfo, sp_message = js ''Synthesizing audio: 0%'', sp_bar = Some 0\<rparr> \<and>
   spinner (render (app_run (\<lambda>e. []) init_app
     [SetText (js ''hello world''), SelectVoice KORE, SetStyle (js ''calm''), Click hello_service]))"
proof -
  let ?s = "app_run (\<lambda>e. []) init_app
     [SetText (js ''hello world''), SelectVoice KORE, SetStyle (js ''calm''), Click hello_service]"
  have r: "app_reach (\<lambda>e. []) ?s" by (intro app_reach_run app_reach.init)
  have "ttsState ?s = \<lparr>status = StProcessing, progress = 0, message = js ''Synthesizing audio: 0%''\<rparr>"
    using hello_run hello_trim hello_short
    by (simp add: init_app_def button_disabled_def handleGenerate_def hello_service_def
                  resume_run_def on_progress_def js_round_def nat_to_js.simps js_def)
  then show ?thesis
    using render_reachable [OF r] r by (simp add: render_def panel_of_def)
qed

text \<open>
  C29. When a generation settles the view changes only there: on success the panel
  turns green with the success message, the spinner stops, and the new clip is
  listed first; on failure the panel turns red with the error's message and the
  library is unchanged.
\<close>
theorem settle_view:
  "render (finish_run msg r (Inr res) s) =
     (render s)\<lparr>panel := Some \<lparr>sp_tone = ToneSuccess, sp_message = js ''Speech generated successfully!'',
                                sp_bar = None\<rparr>,
                spinner := False, generate_label := js ''Generate Speech'',
                generate_enabled := \<not> (js_trim (app_text s) = [] \<or> is_too_long (app_text s)),
                clip_count := Suc (clip_count (render s)),
                clips := clip_of (new_speech (pr_text r) (pr_voice r) res) # clips (render s),
                no_audio := False\<rparr> \<and>
   render (finish_run msg r (Inl e) s) =
     (render s)\<lparr>panel := Some \<lparr>sp_tone = ToneError, sp_message = error_text msg e, sp_bar = None\<rparr>,
                spinner := False, generate_label := js ''Generate Speech'',
                generate_enabled := \<not> (js_trim (app_text s) = [] \<or> is_too_long (app_text s))\<rparr>"
  by (simp add: render_def finish_run_def panel_of_def button_disabled_def)

text \<open>
  C30. Download names: two clips get the same file name exactly when they have the
  same voice and the same date string; clips of one voice made on one day collide.
\<close>
theorem download_name_collision:
  "download_name h d = download_name h' d' \<longleftrightarrow> gs_voice h = gs_voice h' \<and> d = d'"
proof
  assume "download_name h d = download_name h' d'"
  then have "voice_name (gs_voice h) @ 45 # d @ js ''.wav'' = voice_name (gs_voice h') @ 45 # d' @ js ''.wav''"
    by (simp add: download_name_def js_def)
  then have "voice_name (gs_voice h) = voice_name (gs_voice h') \<and> d @ js ''.wav'' = d' @ js ''.wav''"
    using no_dash_split voice_name_no_dash by blast
  then show "gs_voice h = gs_voice h' \<and> d = d'" by (simp add: voice_name_inj)
qed (simp add: download_name_def)

text \<open>
  C31. The text shown for a clip is at most 103 code units, begins with the first 100
  code units of the text, and is the text itself when that is short. The cut is by
  code unit: the witness shows a surrogate pair split, leaving a lone high surrogate
  before the ellipsis.
\<close>
theorem clip_text_bounds:
  "length (gs_text (new_speech t v res)) \<le> 103 \<and>
   take 100 (gs_text (new_speech t v res)) = take 100 t \<and>
   (length t \<le> 100 \<longrightarrow> gs_text (new_speech t v res) = t)"
  by (simp add: new_speech_def js_def)

theorem clip_text_bounds_witness:
  "gs_text (new_speech (replicate 99 97 @ [55357, 56832, 97]) KORE hello_result) =
     replicate 99 97 @ [55357] @ js ''...'' \<and>
   length (gs_text (new_speech (replicate 99 97 @ [55357, 56832, 97]) KORE hello_result)) \<le> 103"
  using clip_text_bounds [of "replicate 99 97 @ [55357, 56832, 97]" KORE hello_result]
  by (simp add: new_speech_def js_def)

end
