(* ===== verification/Spec2Isabelle.thy ===== *)
theory Spec2Isabelle
  imports Wav Base64 Pcm Merge Chunker TtsService App View
begin

text \<open>
  \<^bold>\<open>What is verified.\<close> The text-to-speech studio turns a text into a WAV
  recording through a remote speech service. Its logic is a pipeline:
  the chunker cuts the text into chunks of at most 800 words; the orchestrator
  sends one request per chunk, in order, and decodes each answer (base64, then
  little-endian 16-bit PCM) into an audio buffer; the concatenator merges the
  buffers; the WAV encoder serialises the result. The App component drives the
  orchestrator from a form, with a word limit, a status display and a history.

  \<^bold>\<open>Theories and the code they model.\<close>
  \<^item> Prelude: types (\<open>byte\<close> = \<open>8 word\<close>, \<open>js_string\<close> = UTF-16 code units,
    \<open>sample\<close> = \<open>rat\<close>), the JavaScript exceptions as \<open>js_error\<close>, \<open>bindE\<close> for
    fallible steps, and shared lemmas on list stores, little-endian images,
    \<open>chunks\<close> and bit strings.
  \<^item> AudioBuffer: the Web Audio \<^verbatim>\<open>AudioBuffer\<close> the code calls (a record;
    \<open>createBuffer\<close>, \<open>getChannelData\<close>, \<open>duration\<close>, from the Web Audio spec) and
    its invariant \<open>wf_buffer\<close>.
  \<^item> Wav: \<open>audioBufferToWav\<close> and \<open>writeString\<close> of
    \<^verbatim>\<open>src/utils/audioUtils.ts\<close>, over the \<^verbatim>\<open>DataView\<close> setters;
    \<open>wav_bytes\<close> is the canonical layout they are proved to write (C1-C4).
  \<^item> Base64: \<open>decodeBase64ToUint8Array\<close> and \<open>encodeUint8ArrayToBase64\<close>, over
    \<^verbatim>\<open>atob\<close>/\<^verbatim>\<open>btoa\<close> modelled bit by bit from the HTML standard (C5).
  \<^item> Pcm: \<open>decodePCMToAudioBuffer\<close> with its two loops (C6, C7).
  \<^item> Merge: \<open>mergeAudioBuffers\<close> with its two loops; \<open>concat_channel\<close> is
    the abstract result it refines (C8-C10).
  \<^item> Chunker: \<open>TTSService.chunkText\<close>, with \<^verbatim>\<open>split(/\s+/)\<close> over
    ECMAScript white space; \<open>chunks\<close> and \<open>words_of\<close> are the reference
    definitions (C11, C12).
  \<^item> TtsService: \<open>TTSService.generateSpeech\<close>; the service is a parameter (any
    function of call index, prompt and voice), the observable effects are a trace of
    progress reports and requests (C13-C18). The constructor is the record
    \<open>new_TTSService\<close>, holding the API key and the audio context's rate (C32).
  \<^item> App: the state and the handlers of \<^verbatim>\<open>src/App.tsx\<close> (\<open>handleGenerate\<close>,
    the word counter, the Generate button, the success timer), the types of
    \<^verbatim>\<open>src/types.ts\<close> and the constants of \<^verbatim>\<open>src/constants.tsx\<close> (C21-C27).
  \<^item> View: what the App's JSX renders, as a function \<open>render\<close> of the state
    (counter, word bar, voice buttons, Generate button, status panel, library), and
    the file name of \<open>downloadSpeech\<close> (C28-C31).
  \<^item> This theory: properties across the codecs and the whole pipeline (C19,
    C20, C33). \<open>pcm_service\<close> is a model of the remote service that answers call \<open>i\<close>
    with the base64 image of given PCM bytes, and \<open>mono_buffer\<close> the buffer the
    decoder makes of them; \<open>decodePCM_mono\<close> and \<open>synth_pcm\<close> compute one
    chunk through the Base64 and Pcm theories.

  \<^bold>\<open>Effects, errors, loops.\<close> Every exception the code can raise, or that a platform
  call it makes can raise, is an \<open>Inl\<close> branch of \<open>js_error + _\<close>: \<^verbatim>\<open>RangeError\<close>
  (\<^verbatim>\<open>DataView\<close>, \<^verbatim>\<open>Int16Array\<close>, \<^verbatim>\<open>TypedArray.set\<close>),
  \<^verbatim>\<open>NotSupportedError\<close> and \<^verbatim>\<open>IndexSizeError\<close> (Web Audio),
  \<^verbatim>\<open>InvalidCharacterError\<close> (base64) and \<^verbatim>\<open>Error\<close> with its message. Loops over
  arrays are structural recursion or folds. The chunk loop may not end (with
  \<open>maxWords = 0\<close>), so it is a \<^theory_text>\<open>partial_function (option)\<close> and
  \<open>generateSpeech\<close> returns an option; C12 proves the divergence and C16 that it
  always ends with the 800 the code uses. No fuel is used.

  \<^bold>\<open>Asynchrony.\<close> The App is a deterministic step function \<open>app_step\<close> over an
  explicit list of events, each one a macrotask of the browser: an edit of the form,
  a click, the response to the pending request of one generation in flight, the
  firing of a success timer. A generation in flight keeps the rest of the
  orchestrator's trace; each response runs it up to its next request, or settles it.
  \<open>app_reach\<close> is the inductive set of reachable states.

  \<^bold>\<open>Numbers.\<close> Samples are exact rationals: every \<^verbatim>\<open>Float32Array\<close> value is one,
  and the code's operations on them (division by 32768, multiplication by 32767 or
  32768, clamping, truncation by \<^verbatim>\<open>setInt16\<close>) are exact in binary floating point,
  so the rational model computes the same values. Progress percentages are exact
  rationals where the code rounds \<open>i / n * 100\<close> in binary floating point.
  Bytes, code units and int16 samples are words of their width, with the
  platform's wrap-around written out where it can occur.

  \<^bold>\<open>Main results.\<close> The WAV writes give the canonical layout. The base64 codec
  round-trips. The PCM decoder de-interleaves. The merge concatenates the channels.
  The chunker partitions the words. The orchestrator aborts on the first failure
  and on success returns the WAV of the concatenated chunks. The progress reports
  increase from 0 to 100. The word counter counts words. The controller keeps its
  invariant in every reachable state. Decoding then re-encoding lowers positive
  samples by one (C19), and the round trip errs by up to 2/32768 (C20). A merge
  whose total reaches 2^32 frames raises rather than truncating (C10). A blank text
  still costs one request, where the spec short-circuits (C15). Without the success
  timer at most one generation is in flight (C24); the timer, never cancelled, is
  what lets a second one start. A generation within the word limit makes at most
  13 requests (C26). The history only grows at its front (C27). The view shows a
  progress bar only while processing, with a width in 0..100% (C28). Two clips of
  one voice and day get the same download name (C30). The preview cut can split a
  surrogate pair (C31).
  For any text and any service answering with PCM audio, the whole pipeline
  (chunker, orchestrator, base64, PCM decoder, merge, WAV encoder) requests every
  chunk in order and writes the answers' samples, positive ones lowered by one, into
  a mono 24 kHz WAV (C33).

  \<^bold>\<open>Not modelled.\<close>
  \<^item> The Gemini SDK and the network; the service is a parameter instead.
  \<^item> In the JSX: markup, styles, icons, the audio element, and the anchor
    element \<^verbatim>\<open>downloadSpeech\<close> clicks. Its choices between these are modelled in
    View.
  \<^item> \<^verbatim>\<open>toLocaleDateString\<close> and \<^verbatim>\<open>toLocaleTimeString\<close>, which depend on the
    locale; the date string is a parameter of \<open>download_name\<close>.
  \<^item> The random id, the timestamp and the object URL of a history entry.
  \<^item> \<^verbatim>\<open>console.error\<close>.
  \<^item> The messages of the platform's exceptions, which are implementation-defined;
    they are the parameter \<open>msg\<close> of the controller.
\<close>

section \<open>A service that answers with PCM audio\<close>

text \<open>The service of the pipeline theorem: call \<open>i\<close> answers with the base64
  image of the PCM bytes \<open>pcm i\<close>, whatever the prompt and the voice; and the
  mono 24 kHz buffer the decoder makes of such bytes.\<close>

definition pcm_service :: "(nat \<Rightarrow> byte list) \<Rightarrow> speech_service" where
  "pcm_service pcm =
     (\<lambda>i p v. case encodeUint8ArrayToBase64 (pcm i) of
                 Inl e \<Rightarrow> ApiFailure e
               | Inr s \<Rightarrow> ApiResponse (Some s))"

definition mono_buffer :: "byte list \<Rightarrow> audio_buffer" where
  "mono_buffer p =
     \<lparr>numberOfChannels = 1, ab_length = length p div 2, sampleRate = 24000,
      channel_data = [map pcm_value (le_int16s p)]\<rparr>"

section \<open>Properties across components\<close>

lemma trunc_decoded:
  assumes "-32768 \<le> k" "k \<le> 32767"
  shows "js_trunc (wav_sample (of_int k / 32768)) = (if 0 < k then k - 1 else k)"
proof (cases "k < 0")
  case True
  then have "wav_sample (of_int k / 32768) = of_int k"
    using assms by (simp add: wav_sample_def Let_def)
  then show ?thesis using True by simp
next
  case False
  have le1: "of_int k / 32768 \<le> (1 :: rat)" using assms by simp
  have w: "wav_sample (of_int k / 32768) = of_int k - of_int k / 32768"
    using False le1 by (simp add: wav_sample_def Let_def min_def max_def algebra_simps)
  show ?thesis
  proof (cases "k = 0")
    case True
    then show ?thesis by (simp add: js_trunc_def wav_sample_def)
  next
    case nz: False
    then have "of_int (k - 1) \<le> of_int k - of_int k / (32768 :: rat)"
      "of_int k - of_int k / (32768 :: rat) < of_int (k - 1) + 1"
      using False assms by simp_all
    then have fl: "floor (of_int k - of_int k / (32768 :: rat)) = k - 1"
      by (intro floor_unique) simp_all
    have "\<not> of_int k - of_int k / (32768 :: rat) < 0" using False by simp
    then have "js_trunc (wav_sample (of_int k / 32768)) = k - 1"
      unfolding w js_trunc_def using fl by (simp only: if_False)
    then show ?thesis using False nz by simp
  qed
qed


lemma pcm_value_pcm16: "pcm_value (pcm16 x) = of_int (js_trunc (wav_sample x)) / 32768"
  by (simp add: pcm_value_def sint_pcm16)


lemma pcm16_pcm_value_eq: "pcm16 (pcm_value v) = (if 0 < sint v then v - 1 else v)"
proof -
  have b: "-32768 \<le> sint v" "sint v \<le> 32767"
    using sint_ge [of v] sint_lt [of v] by simp_all
  have "pcm16 (pcm_value v) = word_of_int (if 0 < sint v then sint v - 1 else sint v)"
    using trunc_decoded [OF b] by (simp add: pcm16_def pcm_value_def)
  then show ?thesis by (simp add: wi_hom_sub [symmetric])
qed

text \<open>
  C19. Decoding then re-encoding a sample is not the identity: the decoder divides by
  32768 and the encoder multiplies non-negative values by 32767 and truncates, so every
  positive int16 comes back one lower; zero and the negative values come back unchanged.
\<close>
theorem pcm16_pcm_value: "pcm16 (pcm_value v) = (if 0 < sint v then v - 1 else v)"
  by (rule pcm16_pcm_value_eq)

text \<open>
  C20. PCM round trip: for a sample in [-1, 1], encoding to int16 and decoding again
  changes it by less than 2/32768. The witness shows that the 1/32768 tolerance the
  design states is exceeded: 65535/65536 comes back 3/65536 lower.
\<close>
theorem pcm_roundtrip_error:
  assumes "-1 \<le> x" "x \<le> 1"
  shows "\<bar>pcm_value (pcm16 x) - x\<bar> < 2 / 32768"
proof (cases "x < 0")
  case True
  then have w: "wav_sample x = x * 32768" using assms by (simp add: wav_sample_def Let_def)
  have "x * 32768 \<le> of_int (ceiling (x * 32768))" "of_int (ceiling (x * 32768)) < x * 32768 + 1"
    using ceiling_correct [of "x * 32768"] by linarith+
  moreover have "js_trunc (x * 32768) = ceiling (x * 32768)" using True by (simp add: js_trunc_def)
  ultimately show ?thesis by (simp add: pcm_value_pcm16 w abs_less_iff field_simps)
next
  case False
  then have w: "wav_sample x = x * 32767" using assms by (simp add: wav_sample_def Let_def)
  have "of_int (floor (x * 32767)) \<le> x * 32767" "x * 32767 < of_int (floor (x * 32767)) + 1"
    using floor_correct [of "x * 32767"] by linarith+
  moreover have "js_trunc (x * 32767) = floor (x * 32767)" using False by (simp add: js_trunc_def)
  ultimately show ?thesis using False assms
    by (simp add: pcm_value_pcm16 w abs_less_iff field_simps) (use floor_correct [of "x * 32767"] in linarith)
qed

theorem pcm_roundtrip_error_witness:
  "-1 \<le> (65535 / 65536 :: rat) \<and> (65535 / 65536 :: rat) \<le> 1 \<and>
   \<bar>pcm_value (pcm16 (65535 / 65536)) - 65535 / 65536\<bar> = 3 / 65536 \<and>
   \<bar>pcm_value (pcm16 (65535 / 65536)) - 65535 / 65536\<bar> < 2 / 32768"
proof -
  have "js_trunc (wav_sample (65535 / 65536)) = 32766"
    by (simp add: js_trunc_def wav_sample_def Let_def floor_eq_iff)
  then show ?thesis
    using pcm_roundtrip_error [of "65535 / 65536"] by (simp add: pcm_value_pcm16)
qed

section \<open>The pipeline with a PCM service\<close>

lemma decode_b64_encode: "decodeBase64ToUint8Array (b64_encode bs) = Inr bs"
  by (simp add: decodeBase64ToUint8Array_def atob_b64_encode comp_def)

lemma b64_encode_nonempty: "bs \<noteq> [] \<Longrightarrow> b64_encode bs \<noteq> []"
proof
  assume "bs \<noteq> []" "b64_encode bs = []"
  moreover have "decodeBase64ToUint8Array [] = Inr []" by code_simp
  ultimately show False using decode_b64_encode [of bs] by simp
qed

lemma decodePCM_mono:
  assumes "even (length p)" "2 \<le> length p" "length p div 2 < 2 ^ 32"
  shows "decodePCMToAudioBuffer p 24000 1 = Inr (mono_buffer p)"
proof -
  have l: "length p div 2 = length (le_int16s p)" using assms(1) by simp
  have m: "map (\<lambda>i. pcm_value (le_int16s p ! i)) [0..<length p div 2] = map pcm_value (le_int16s p)"
    unfolding l by (rule map_nth_fun)
  have h: "0 < (1::nat)" "(1::nat) \<le> 32" "1 \<le> length p div 2" "3000 \<le> (24000::nat)"
    "(24000::nat) \<le> 768000" "length p div 2 div 1 < 2 ^ 32"
    using assms(2,3) by simp_all
  have e: "decodePCMToAudioBuffer p 24000 1 =
          Inr \<lparr>numberOfChannels = 1, ab_length = length p div 2 div 1, sampleRate = 24000,
               channel_data = map (\<lambda>c. map (\<lambda>i. pcm_value (le_int16s p ! (i * 1 + c)))
                                            [0..<length p div 2 div 1]) [0..<1]\<rparr>"
    by (rule decodePCM_eq [OF assms(1) h])
  have "map (\<lambda>c. map (\<lambda>i. pcm_value (le_int16s p ! (i * 1 + c))) [0..<length p div 2 div 1]) [0..<1] =
        [map pcm_value (le_int16s p)]"
  proof -
    have u: "[0..<1::nat] = [0]" by simp
    show ?thesis using m by (simp only: u div_by_1 mult_1_right add_0_right list.map)
  qed
  then show ?thesis using e by (simp only: mono_buffer_def div_by_1)
qed

lemma synth_pcm:
  assumes "even (length (pcm i))" "2 \<le> length (pcm i)" "length (pcm i) div 2 < 2 ^ 32"
  shows "synth_chunk (pcm_service pcm) v st i c = Inr (mono_buffer (pcm i))"
proof -
  have ne: "b64_encode (pcm i) \<noteq> []" using assms(2) by (intro b64_encode_nonempty) auto
  have "pcm_service pcm i (prompt st c) v = ApiResponse (Some (b64_encode (pcm i)))"
    by (simp add: pcm_service_def encodeUint8ArrayToBase64_eq)
  then show ?thesis
    using ne decodePCM_mono [OF assms] by (simp add: synth_chunk_def decode_b64_encode)
qed

lemma concat_channel_mono:
  "concat_channel (map (\<lambda>j. mono_buffer (pcm j)) ks) 0 =
     concat (map (\<lambda>j. map pcm_value (le_int16s (pcm j))) ks)"
  by (simp add: concat_channel_def mono_buffer_def comp_def)

lemma total_length_mono:
  "total_length (map (\<lambda>j. mono_buffer (pcm j)) ks) = sum_list (map (\<lambda>j. length (pcm j) div 2) ks)"
  by (simp add: total_length_def mono_buffer_def comp_def)

lemma pipeline_hello_data:
  "concat (map (\<lambda>w. le16 (if 0 < sint w then w - 1 else w))
      (concat (map (\<lambda>j. le_int16s ([0, 0, 0, 64] :: byte list)) [0..<1]))) = [0, 0, 255, 63]"
  by code_simp

text \<open>
  C33. The whole pipeline refines the codecs' arithmetic: for a text the chunker cuts
  into chunks \<open>cs\<close>, and a service whose answer to chunk \<open>j\<close> is the base64 image of
  an even number (at least 2) of PCM bytes \<open>pcm j\<close>, \<open>generateSpeech\<close> succeeds,
  requests every chunk in order with the style prompt and the voice, and returns a
  mono 24 kHz WAV whose data region is the int16 samples of all the answers, in
  order, each positive one lowered by one (base64, PCM decoding, merge and WAV
  encoding composed, with C19 for each sample).
\<close>
theorem pipeline_refinement:
  assumes "chunkText text 800 = Some cs"
    and "\<forall>j < length cs. even (length (pcm j)) \<and> 2 \<le> length (pcm j)"
    and "sum_list (map (\<lambda>j. length (pcm j) div 2) [0..<length cs]) < 2 ^ 32"
  shows "\<exists>tr res. generateSpeech (pcm_service pcm) text v st rep = Some (tr, Inr res) \<and>
           requests_of tr = map (\<lambda>c. (prompt st c, v)) cs \<and>
           blob_bytes (res_blob res) =
             wav_header 1 24000 (sum_list (map (\<lambda>j. length (pcm j) div 2) [0..<length cs])) @
             concat (map (\<lambda>w. le16 (if 0 < sint w then w - 1 else w))
                         (concat (map (\<lambda>j. le_int16s (pcm j)) [0..<length cs])))"
proof -
  let ?bs = "map (\<lambda>j. mono_buffer (pcm j)) [0..<length cs]"
  have small: "length (pcm j) div 2 < 2 ^ 32" if "j < length cs" for j
  proof -
    have "length (pcm j) div 2 \<le> sum_list (map (\<lambda>j. length (pcm j) div 2) [0..<length cs])"
      using that by (intro member_le_sum_list) auto
    then show ?thesis using assms(3) by linarith
  qed
  have synth: "list_all2 (\<lambda>(j, c) b. synth_chunk (pcm_service pcm) v st j c = Inr b)
                 (zip [0..<length cs] cs) ?bs"
    using assms(2) small by (auto simp: list_all2_conv_all_nth synth_pcm)
  have tl: "total_length ?bs < 2 ^ 32" using assms(3) by (simp add: total_length_mono)
  have len: "length (concat (map (\<lambda>j. map pcm_value (le_int16s (pcm j))) [0..<length cs])) =
             sum_list (map (\<lambda>j. length (pcm j) div 2) [0..<length cs])"
  proof -
    have eq: "map (\<lambda>j. Suc (length (pcm j)) div 2) [0..<length cs] = map (\<lambda>j. length (pcm j) div 2) [0..<length cs]"
      using assms(2) by (intro map_cong) auto
    have "length (concat (map (\<lambda>j. map pcm_value (le_int16s (pcm j))) [0..<length cs])) =
          sum_list (map (\<lambda>j. Suc (length (pcm j)) div 2) [0..<length cs])"
      by (simp add: length_concat comp_def)
    then show ?thesis by (simp only: eq)
  qed
  have enc: "concat (map (\<lambda>s. le16 (pcm16 s)) (concat (map (\<lambda>j. map pcm_value (le_int16s (pcm j))) [0..<length cs]))) =
             concat (map (\<lambda>w. le16 (if 0 < sint w then w - 1 else w)) (concat (map (\<lambda>j. le_int16s (pcm j)) [0..<length cs])))"
    by (simp add: map_concat comp_def pcm16_pcm_value_eq)
  show ?thesis
    using generateSpeech_ok [OF assms(1) synth tl, of rep] requests_of_steps [of rep v st "length cs" 0 cs]
    by (simp add: wav_bytes_def concat_channel_mono len enc)
qed

theorem pipeline_refinement_witness:
  "\<exists>tr res. generateSpeech (pcm_service (\<lambda>j. [0, 0, 0, 64])) (js ''hello world'') KORE (js ''calm'') True =
             Some (tr, Inr res) \<and>
           requests_of tr = [(prompt (js ''calm'') (js ''hello world''), KORE)] \<and>
           blob_bytes (res_blob res) = wav_header 1 24000 2 @ [0, 0, 255, 63]"
proof -
  let ?pcm = "\<lambda>j::nat. [0, 0, 0, 64] :: byte list"
  have n: "sum_list (map (\<lambda>j. length (?pcm j) div 2) [0..<length [js ''hello world'']]) = 2"
    by simp
  have h1: "\<forall>j < length [js ''hello world'']. even (length (?pcm j)) \<and> 2 \<le> length (?pcm j)"
    by simp
  have h2: "sum_list (map (\<lambda>j. length (?pcm j) div 2) [0..<length [js ''hello world'']]) < 2 ^ 32"
    by (simp only: n) simp
  show ?thesis
    using pipeline_refinement [OF ct_hello h1 h2, of KORE "js ''calm''" True] pipeline_hello_data
    unfolding n by simp
qed

end
